theory Spec2Isabelle
  imports Main "HOL-Library.Word" "HOL-Library.Sublist" "HOL-Library.Multiset"
begin

unbundle bit_operations_syntax

section \<open>Data model\<close>

text \<open>
  The TypeScript enum \<^verbatim>\<open>RepoStatus\<close> is a set of bit flags
  (\<^verbatim>\<open>BLOCKEDBY = 1 << 0\<close>, ..., \<^verbatim>\<open>UNKNOWN = 1 << 7\<close>).
  JavaScript's bitwise operators work on 32-bit integers, so a status is a 32-bit word.
  Both source versions (\<^verbatim>\<open>src/App.tsx\<close> and the second, commented copy of
  the application) declare the same enum.
\<close>

type_synonym RepoStatus = "32 word"

definition BLOCKEDBY :: RepoStatus where "BLOCKEDBY = push_bit 0 1"
definition BLOCKING :: RepoStatus where "BLOCKING = push_bit 1 1"
definition DELETED :: RepoStatus where "DELETED = push_bit 2 1"
definition DEACTIVATED :: RepoStatus where "DEACTIVATED = push_bit 3 1"
definition SUSPENDED :: RepoStatus where "SUSPENDED = push_bit 4 1"
definition HIDDEN :: RepoStatus where "HIDDEN = push_bit 5 1"
definition YOURSELF :: RepoStatus where "YOURSELF = push_bit 6 1"
definition UNKNOWN :: RepoStatus where "UNKNOWN = push_bit 7 1"

text \<open>\<^verbatim>\<open>type AccountRecord\<close>, used for follows and for blocks.\<close>

record AccountRecord =
  did :: string
  handle :: string
  uri :: string
  status :: RepoStatus
  status_label :: string
  toDelete :: bool
  visible :: bool

datatype ViewMode = FOLLOWS | BLOCKS

text \<open>
  \<^verbatim>\<open>type ToggleStates = { [key in RepoStatus]?: boolean }\<close>: a partial map
  from a status to a flag. A lookup of a missing key is \<^verbatim>\<open>undefined\<close>,
  which every reader of the map replaces by \<^verbatim>\<open>true\<close> (\<^verbatim>\<open>?? true\<close>).
\<close>

type_synonym ToggleStates = "RepoStatus \<rightharpoonup> bool"

definition followToggleStates0 :: ToggleStates where
  "followToggleStates0 =
     [DELETED \<mapsto> True, DEACTIVATED \<mapsto> True, SUSPENDED \<mapsto> True,
      BLOCKEDBY \<mapsto> True, BLOCKING \<mapsto> True, HIDDEN \<mapsto> True]"

definition blockToggleStates0 :: ToggleStates where
  "blockToggleStates0 =
     [DELETED \<mapsto> True, DEACTIVATED \<mapsto> True, SUSPENDED \<mapsto> True,
      UNKNOWN \<mapsto> True]"

definition toggle_or_true :: "ToggleStates \<Rightarrow> RepoStatus \<Rightarrow> bool" where
  "toggle_or_true ts s = (case ts s of None \<Rightarrow> True | Some b \<Rightarrow> b)"

section \<open>Status labels (follow mode)\<close>

text \<open>
  The chain of conditional expressions in the follow-mode callback of
  \<^verbatim>\<open>fetchHiddenAccounts\<close>; it is the same in both source versions. The status
  may be \<^verbatim>\<open>undefined\<close> (no issue found), which equals none of the enum values.
\<close>

definition follow_status_label :: "RepoStatus option \<Rightarrow> string" where
  "follow_status_label st =
     (if st = Some DELETED then ''Deleted''
      else if st = Some DEACTIVATED then ''Deactivated''
      else if st = Some SUSPENDED then ''Suspended''
      else if st = Some YOURSELF then ''Literally Yourself''
      else if st = Some BLOCKING then ''Blocking''
      else if st = Some BLOCKEDBY then ''Blocked by''
      else if st = Some HIDDEN then ''Hidden by moderation service''
      else if st = Some (BLOCKEDBY OR BLOCKING) then ''Mutual Block''
      else if st = Some UNKNOWN then ''Unknown Status''
      else '''')"

section \<open>JavaScript strings and truthiness\<close>

text \<open>\<^verbatim>\<open>s.includes(needle)\<close>: \<open>needle\<close> occurs in \<open>s\<close> as a contiguous run.\<close>

definition str_includes :: "string \<Rightarrow> string \<Rightarrow> bool" where
  "str_includes s needle = sublist needle s"

text \<open>
  \<^verbatim>\<open>s.split(sep)\<close> for a non-empty separator: the text is cut at every
  occurrence of the separator, read from the left; \<open>cur\<close> is the piece being read.
  The result is never empty. (With the empty separator JavaScript cuts between all
  characters.)
\<close>

function split_from :: "string \<Rightarrow> string \<Rightarrow> string \<Rightarrow> string list" where
  "split_from sep cur [] = [cur]"
| "split_from sep cur (c # cs) =
     (if sep \<noteq> [] \<and> prefix sep (c # cs)
      then cur # split_from sep [] (drop (length sep) (c # cs))
      else split_from sep (cur @ [c]) cs)"
  by pat_completeness auto
termination
  by (relation "measure (\<lambda>(sep, cur, s). length s)") auto

definition split_js :: "string \<Rightarrow> string \<Rightarrow> string list" where
  "split_js s sep = (if sep = [] then map (\<lambda>c. [c]) s else split_from sep [] s)"

text \<open>\<^verbatim>\<open>xs[i]\<close>: \<^verbatim>\<open>undefined\<close> out of range.\<close>

definition at_index :: "'a list \<Rightarrow> nat \<Rightarrow> 'a option" where
  "at_index xs i = (if i < length xs then Some (xs ! i) else None)"

text \<open>
  Truthiness of an optional string (\<^verbatim>\<open>undefined\<close> and the empty string are falsy),
  of an optional boolean, and \<^verbatim>\<open>a || b\<close> on strings.
\<close>

fun truthy_str :: "string option \<Rightarrow> bool" where
  "truthy_str None = False"
| "truthy_str (Some s) = (s \<noteq> [])"

fun truthy_bool :: "bool option \<Rightarrow> bool" where
  "truthy_bool None = False"
| "truthy_bool (Some b) = b"

definition or_else :: "string option \<Rightarrow> string \<Rightarrow> string" where
  "or_else a b = (case a of None \<Rightarrow> b | Some s \<Rightarrow> if s = [] then b else s)"

section \<open>The network, as the code sees it\<close>

text \<open>
  A call of the client of \<^verbatim>\<open>src/App.tsx\<close> (\<^verbatim>\<open>Client\<close>) resolves to a
  response with \<^verbatim>\<open>ok: true\<close> and the data, resolves to a response with
  \<^verbatim>\<open>ok: false\<close> and an error body, or rejects (the transport failed).
  A call of the client of the other version (\<^verbatim>\<open>XRPC\<close>) resolves to the data or
  throws an error object, of which the code reads \<^verbatim>\<open>message\<close>,
  \<^verbatim>\<open>status\<close> and \<^verbatim>\<open>data\<close>.
\<close>

record ErrorBody =
  eb_error :: "string option"
  eb_message :: "string option"

record ThrownError =
  t_message :: "string option"
  t_status :: "nat option"
  t_data :: "ErrorBody option"

datatype 'a client_result = Ok 'a | NotOk ErrorBody | Rejected

datatype 'a xrpc_result = Resolved 'a | Thrown ThrownError

text \<open>An exception that leaves a function of the application.\<close>

datatype js_exception = TypeError | RpcRejected | RpcError "string option" | XrpcThrown ThrownError

text \<open>A page of a listing: its items and the optional continuation cursor.\<close>

record 'a page =
  items :: "'a list"
  cursor :: "string option"

text \<open>
  \<^verbatim>\<open>app.bsky.actor.getProfile\<close>: the fields of the profile the code reads. Every
  field may be missing in the JSON that arrives. \<^verbatim>\<open>blocking\<close> is the locator of
  the viewer's block record, \<^verbatim>\<open>blockingByList\<close> a list view (an object, truthy
  when present).
\<close>

record Label =
  val :: string

record ViewerState =
  blockedBy :: "bool option"
  blocking :: "string option"
  blockingByList :: "string option"

record ProfileViewDetailed =
  pv_did :: "string option"
  pv_handle :: "string option"
  labels :: "Label list option"
  viewer :: "ViewerState option"

text \<open>\<^verbatim>\<open>res.data.labels?.some((label) => label.val === "!hide")\<close>\<close>

definition has_hide_label :: "ProfileViewDetailed \<Rightarrow> bool" where
  "has_hide_label p =
     (case labels p of None \<Rightarrow> False | Some ls \<Rightarrow> list_ex (\<lambda>l. val l = ''!hide'') ls)"

text \<open>\<^verbatim>\<open>viewer.blocking || viewer.blockingByList\<close>\<close>

definition viewer_blocks :: "ViewerState \<Rightarrow> bool" where
  "viewer_blocks v = (truthy_str (blocking v) \<or> blockingByList v \<noteq> None)"

section \<open>Resolving a handle from the identity document\<close>

text \<open>
  \<^verbatim>\<open>resolveDid\<close> fetches the identity document and returns the text after
  \<^verbatim>\<open>//\<close> of the first entry of \<^verbatim>\<open>alsoKnownAs\<close> that contains
  \<^verbatim>\<open>at://\<close>. The fetch is the environment: it fails, delivers a body that is
  not JSON, or delivers a document, whose \<^verbatim>\<open>alsoKnownAs\<close> may be missing
  (iterating over it then throws, which the \<^verbatim>\<open>.catch\<close> handler receives).
\<close>

datatype DidDocFetch = FetchFailed | JsonFailed | Doc "string list option"

definition didDocUrl :: "string \<Rightarrow> string" where
  "didDocUrl d =
     (if prefix ''did:web'' d
      then ''https://'' @ (case at_index (split_js d '':'') 2 of None \<Rightarrow> ''undefined'' | Some h \<Rightarrow> h)
             @ ''/.well-known/did.json''
      else ''https://plc.directory/'' @ d)"

definition alias_handle :: "string \<Rightarrow> string option" where
  "alias_handle alias = at_index (split_js alias ''//'') 1"

text \<open>\<^verbatim>\<open>src/App.tsx\<close>: the empty string on a failure, \<^verbatim>\<open>undefined\<close> when no
  entry matches.\<close>

definition resolveDid_app :: "(string \<Rightarrow> DidDocFetch) \<Rightarrow> string \<Rightarrow> string option" where
  "resolveDid_app fetchDoc d =
     (case fetchDoc (didDocUrl d) of
        FetchFailed \<Rightarrow> Some []
      | JsonFailed \<Rightarrow> Some []
      | Doc None \<Rightarrow> Some []
      | Doc (Some aliases) \<Rightarrow>
          (case find (\<lambda>alias. str_includes alias ''at://'') aliases of
             None \<Rightarrow> None
           | Some alias \<Rightarrow> alias_handle alias))"

text \<open>The other version: a placeholder text on every failure.\<close>

definition resolveDid_p0 :: "(string \<Rightarrow> DidDocFetch) \<Rightarrow> string \<Rightarrow> string option" where
  "resolveDid_p0 fetchDoc d =
     (case fetchDoc (didDocUrl d) of
        FetchFailed \<Rightarrow> Some (''[Failed to resolve: '' @ take 15 d @ ''...]'')
      | JsonFailed \<Rightarrow> Some (''[Parse error: '' @ take 15 d @ ''...]'')
      | Doc None \<Rightarrow> Some (''[Parse error: '' @ take 15 d @ ''...]'')
      | Doc (Some aliases) \<Rightarrow>
          (case find (\<lambda>alias. str_includes alias ''at://'') aliases of
             None \<Rightarrow> Some ''[No handle found]''
           | Some alias \<Rightarrow> alias_handle alias))"

section \<open>The profile status classifier\<close>

text \<open>
  The result of \<^verbatim>\<open>checkProfileStatus\<close>. \<^verbatim>\<open>src/App.tsx\<close> returns
  \<^verbatim>\<open>{ handle, status }\<close> only; the other version declares
  \<^verbatim>\<open>ProfileCheckResult\<close> with an optional \<^verbatim>\<open>error\<close>.
\<close>

datatype ErrorDetails =
    InvalidData
  | FieldPresence bool bool
  | ApiDetails "nat option" "string option" ThrownError

record ProfileError =
  err_type :: string
  err_message :: string
  err_details :: "ErrorDetails option"

record ProfileCheckResult =
  r_handle :: "string option"
  r_status :: "RepoStatus option"
  r_error :: "ProfileError option"

text \<open>
  \<^verbatim>\<open>checkProfileStatus\<close> of \<^verbatim>\<open>src/App.tsx\<close>. A rejected call is not caught.
  \<^verbatim>\<open>viewer\<close> is read with a non-null assertion, so \<^verbatim>\<open>viewer.blockedBy\<close>
  throws when the profile has no viewer object, and
  \<^verbatim>\<open>res.data.did.includes(agentDID)\<close> throws when it has no identifier.
\<close>

definition checkProfileStatus_app ::
  "string \<Rightarrow> (string \<Rightarrow> ProfileViewDetailed client_result) \<Rightarrow> (string \<Rightarrow> DidDocFetch) \<Rightarrow>
   string \<Rightarrow> js_exception + ProfileCheckResult" where
  "checkProfileStatus_app agentDID getProfile fetchDoc actor =
     (case getProfile actor of
        Rejected \<Rightarrow> Inl RpcRejected
      | NotOk e \<Rightarrow>
          Inr \<lparr>r_handle = resolveDid_app fetchDoc actor,
               r_status = Some
                 (case eb_message e of
                    None \<Rightarrow> UNKNOWN
                  | Some m \<Rightarrow>
                      if str_includes m ''not found'' then DELETED
                      else if str_includes m ''deactivated'' then DEACTIVATED
                      else if str_includes m ''suspended'' then SUSPENDED
                      else UNKNOWN),
               r_error = None\<rparr>
      | Ok p \<Rightarrow>
          if has_hide_label p
          then Inr \<lparr>r_handle = pv_handle p, r_status = Some HIDDEN, r_error = None\<rparr>
          else (case viewer p of
                  None \<Rightarrow> Inl TypeError
                | Some v \<Rightarrow>
                    if truthy_bool (blockedBy v)
                    then Inr \<lparr>r_handle = pv_handle p,
                              r_status = Some (if viewer_blocks v then BLOCKEDBY OR BLOCKING
                                               else BLOCKEDBY),
                              r_error = None\<rparr>
                    else (case pv_did p of
                            None \<Rightarrow> Inl TypeError
                          | Some d \<Rightarrow>
                              Inr \<lparr>r_handle = pv_handle p,
                                   r_status =
                                     (if str_includes d agentDID then Some YOURSELF
                                      else if viewer_blocks v then Some BLOCKING
                                      else None),
                                   r_error = None\<rparr>)))"

text \<open>
  \<^verbatim>\<open>checkProfileStatus\<close> of the other version: the whole body is inside
  \<^verbatim>\<open>try\<close>, the \<^verbatim>\<open>catch\<close> block maps the thrown error to a status. The
  resolved data may be missing or not an object (\<open>None\<close>).
\<close>

definition error_status_p0 :: "ThrownError \<Rightarrow> RepoStatus" where
  "error_status_p0 e =
     (let errorMessage = or_else (t_message e) [];
          errorStatus = t_status e;
          errorData = (case t_data e of None \<Rightarrow> \<lparr>eb_error = None, eb_message = None\<rparr> | Some b \<Rightarrow> b)
      in if eb_error errorData = Some ''AccountDeactivated'' \<or> str_includes errorMessage ''AccountDeactivated''
         then DEACTIVATED
         else if eb_error errorData = Some ''AccountSuspended'' \<or> str_includes errorMessage ''AccountSuspended''
         then SUSPENDED
         else if eb_error errorData = Some ''AccountDeleted'' \<or> eb_error errorData = Some ''ActorNotFound''
                 \<or> errorStatus = Some 400
         then DELETED
         else UNKNOWN)"

definition error_object_p0 :: "ThrownError \<Rightarrow> ProfileError" where
  "error_object_p0 e =
     (let errorMessage = or_else (t_message e) [];
          errorData = (case t_data e of None \<Rightarrow> \<lparr>eb_error = None, eb_message = None\<rparr> | Some b \<Rightarrow> b)
      in \<lparr>err_type = ''api'',
          err_message = or_else (eb_message errorData) (or_else (Some errorMessage) ''Profile not accessible''),
          err_details = Some (ApiDetails (t_status e) (eb_error errorData) e)\<rparr>)"

definition checkProfileStatus_p0 ::
  "string \<Rightarrow> (string \<Rightarrow> ProfileViewDetailed option xrpc_result) \<Rightarrow> (string \<Rightarrow> DidDocFetch) \<Rightarrow>
   string \<Rightarrow> js_exception + ProfileCheckResult" where
  "checkProfileStatus_p0 agentDID getProfile fetchDoc actor =
     (case getProfile actor of
        Resolved None \<Rightarrow>
          Inr \<lparr>r_handle = Some ''[Invalid Response]'', r_status = Some UNKNOWN,
               r_error = Some \<lparr>err_type = ''validation'',
                                err_message = ''API returned invalid response structure'',
                                err_details = None\<rparr>\<rparr>
      | Resolved (Some p) \<Rightarrow>
          if \<not> truthy_str (pv_did p) \<or> \<not> truthy_str (pv_handle p)
          then Inr \<lparr>r_handle = Some (or_else (pv_handle p) ''[Missing Handle]''),
                    r_status = Some UNKNOWN,
                    r_error = Some \<lparr>err_type = ''validation'',
                                     err_message = ''Profile response missing essential fields'',
                                     err_details = Some (FieldPresence (truthy_str (pv_handle p))
                                                                        (truthy_str (pv_did p)))\<rparr>\<rparr>
          else Inr \<lparr>r_handle = pv_handle p,
                    r_status =
                      (case viewer p of
                         None \<Rightarrow> None
                       | Some v \<Rightarrow>
                           if has_hide_label p then Some HIDDEN
                           else if truthy_bool (blockedBy v)
                           then Some (if viewer_blocks v then BLOCKEDBY OR BLOCKING else BLOCKEDBY)
                           else if pv_did p = Some agentDID then Some YOURSELF
                           else if viewer_blocks v then Some BLOCKING
                           else None),
                    r_error = None\<rparr>
      | Thrown e \<Rightarrow>
          Inr \<lparr>r_handle = resolveDid_p0 fetchDoc actor,
               r_status = Some (error_status_p0 e),
               r_error = Some (error_object_p0 e)\<rparr>)"

section \<open>Application state\<close>

text \<open>
  The module-level stores and signals (\<^verbatim>\<open>followRecords\<close>, \<^verbatim>\<open>blockRecords\<close>,
  the two toggle stores, \<^verbatim>\<open>currentMode\<close>, \<^verbatim>\<open>globalNotice\<close>) and the two
  signals of the \<^verbatim>\<open>Fetch\<close> component (\<^verbatim>\<open>progress\<close>, \<^verbatim>\<open>itemCount\<close>).
  A notice is one of the fixed texts of the code; the two success texts carry the
  number of deleted records.
\<close>

datatype Notice =
    NoNotice
  | FetchingBlocked
  | AnalyzingBlocked
  | AllBlocksActive
  | FetchingFollowed
  | AnalyzingFollowed
  | AllFollowsActive
  | CleanedUpBlocks nat
  | Unfollowed nat

record AppState =
  followRecords :: "AccountRecord list"
  blockRecords :: "AccountRecord list"
  followToggleStates :: ToggleStates
  blockToggleStates :: ToggleStates
  currentMode :: ViewMode
  globalNotice :: Notice
  progress :: nat
  itemCount :: nat

definition currentRecords :: "AppState \<Rightarrow> AccountRecord list" where
  "currentRecords st = (if currentMode st = BLOCKS then blockRecords st else followRecords st)"

definition setCurrentRecords :: "AppState \<Rightarrow> AccountRecord list \<Rightarrow> AppState" where
  "setCurrentRecords st rs =
     (if currentMode st = BLOCKS then st\<lparr>blockRecords := rs\<rparr> else st\<lparr>followRecords := rs\<rparr>)"

definition currentToggleStates :: "AppState \<Rightarrow> ToggleStates" where
  "currentToggleStates st =
     (if currentMode st = BLOCKS then blockToggleStates st else followToggleStates st)"

definition setCurrentToggleStates :: "AppState \<Rightarrow> RepoStatus \<Rightarrow> bool \<Rightarrow> AppState" where
  "setCurrentToggleStates st s v =
     (if currentMode st = BLOCKS then st\<lparr>blockToggleStates := (blockToggleStates st)(s \<mapsto> v)\<rparr>
      else st\<lparr>followToggleStates := (followToggleStates st)(s \<mapsto> v)\<rparr>)"

section \<open>Toggles: \<^verbatim>\<open>editRecords\<close> and \<^verbatim>\<open>updateToggleState\<close>\<close>

text \<open>
  \<^verbatim>\<open>editRecords(status, field, value)\<close> collects the indices of the current records
  with \<^verbatim>\<open>record.status & status\<close> truthy (not zero) and has the store setter write
  \<open>value\<close> to \<open>field\<close> at each of them. Only the two boolean fields are ever passed.
  The code is the same in both versions.
\<close>

datatype BoolField = FieldVisible | FieldToDelete

definition set_field :: "BoolField \<Rightarrow> bool \<Rightarrow> AccountRecord \<Rightarrow> AccountRecord" where
  "set_field f v r = (case f of FieldVisible \<Rightarrow> r\<lparr>visible := v\<rparr> | FieldToDelete \<Rightarrow> r\<lparr>toDelete := v\<rparr>)"

definition matching_indices :: "AccountRecord list \<Rightarrow> RepoStatus \<Rightarrow> nat list" where
  "matching_indices rs s = filter (\<lambda>i. status (rs ! i) AND s \<noteq> 0) [0 ..< length rs]"

definition set_at_indices :: "nat list \<Rightarrow> BoolField \<Rightarrow> bool \<Rightarrow> AccountRecord list \<Rightarrow> AccountRecord list" where
  "set_at_indices idxs f v rs =
     foldl (\<lambda>acc i. if i < length acc then acc[i := set_field f v (acc ! i)] else acc) rs idxs"

definition editRecords :: "AppState \<Rightarrow> RepoStatus \<Rightarrow> BoolField \<Rightarrow> bool \<Rightarrow> AppState" where
  "editRecords st s f v =
     (let idxs = matching_indices (currentRecords st) s
      in setCurrentRecords st (set_at_indices idxs f v (currentRecords st)))"

definition updateToggleState :: "AppState \<Rightarrow> RepoStatus \<Rightarrow> bool \<Rightarrow> AppState" where
  "updateToggleState st s v =
     (let st1 = setCurrentToggleStates st s v;
          st2 = editRecords st1 s FieldVisible v
      in if \<not> v then editRecords st2 s FieldToDelete False else st2)"

section \<open>Batched deletion: \<^verbatim>\<open>removeItems\<close>\<close>

text \<open>
  One delete operation per record marked \<^verbatim>\<open>toDelete\<close>; its key is
  \<^verbatim>\<open>record.uri.split("/").pop()\<close>.
\<close>

record DeleteOp =
  op_type :: string
  collection :: string
  rkey :: string

definition rkey_of :: "string \<Rightarrow> string" where
  "rkey_of u = last (split_js u ''/'')"

definition delete_op :: "string \<Rightarrow> AccountRecord \<Rightarrow> DeleteOp" where
  "delete_op coll r =
     \<lparr>op_type = ''com.atproto.repo.applyWrites#delete'', collection = coll, rkey = rkey_of (uri r)\<rparr>"

text \<open>\<^verbatim>\<open>xs.slice(i, j)\<close> for \<open>0 \<le> i \<le> j\<close>.\<close>

definition slice :: "'a list \<Rightarrow> nat \<Rightarrow> nat \<Rightarrow> 'a list" where
  "slice xs i j = take (j - i) (drop i xs)"

definition BATCHSIZE :: nat where
  "BATCHSIZE = 200"

text \<open>
  The loop \<^verbatim>\<open>for (let i = 0; i < writes.length; i += BATCHSIZE) await rpc.post(...)\<close>.
  \<open>post\<close> is the batched-write call: \<open>None\<close> when it returns, the exception when it
  throws, which ends the loop and the function. (The client of \<^verbatim>\<open>src/App.tsx\<close>
  returns an error response as a value, which the loop ignores; the other version's
  \<^verbatim>\<open>rpc.call\<close> throws it.) \<open>log\<close> records the calls issued, in order.
\<close>

function post_batches ::
  "(DeleteOp list \<Rightarrow> js_exception option) \<Rightarrow> DeleteOp list \<Rightarrow> nat \<Rightarrow> DeleteOp list list \<Rightarrow>
   DeleteOp list list \<times> js_exception option" where
  "post_batches post writes i log =
     (if i < length writes
      then (let chunk = slice writes i (i + BATCHSIZE)
            in case post chunk of
                 Some ex \<Rightarrow> (log @ [chunk], Some ex)
               | None \<Rightarrow> post_batches post writes (i + BATCHSIZE) (log @ [chunk]))
      else (log, None))"
  by pat_completeness auto
termination
  by (relation "measure (\<lambda>(post, writes, i, log). length writes - i)") (auto simp add: BATCHSIZE_def)

definition removeItems ::
  "(DeleteOp list \<Rightarrow> js_exception option) \<Rightarrow> AppState \<Rightarrow> DeleteOp list list \<times> (js_exception + AppState)" where
  "removeItems post st =
     (let recs = currentRecords st;
          coll = (if currentMode st = BLOCKS then ''app.bsky.graph.block'' else ''app.bsky.graph.follow'');
          writes = map (delete_op coll) (filter toDelete recs);
          (log, thrown) = post_batches post writes 0 []
      in case thrown of
           Some ex \<Rightarrow> (log, Inl ex)
         | None \<Rightarrow>
             (log, Inr (if currentMode st = BLOCKS
                        then st\<lparr>blockRecords := [], globalNotice := CleanedUpBlocks (length writes)\<rparr>
                        else st\<lparr>followRecords := [], globalNotice := Unfollowed (length writes)\<rparr>)))"

section \<open>Block mode: building the records\<close>

text \<open>A block record of the repository as the code keeps it: \<^verbatim>\<open>{ did, uri }\<close>.\<close>

record BlockRef =
  b_did :: string
  b_uri :: string

text \<open>
  The body of the block-mode loop after \<^verbatim>\<open>checkProfileStatus\<close> has returned, in
  \<^verbatim>\<open>src/App.tsx\<close>: \<^verbatim>\<open>actualStatus = status || RepoStatus.UNKNOWN\<close> (a missing
  status and 0 are falsy), and the label is chosen by comparing \<^verbatim>\<open>status\<close>.
\<close>

definition block_status_label :: "RepoStatus option \<Rightarrow> string" where
  "block_status_label st =
     (if st = Some DELETED then ''Deleted''
      else if st = Some DEACTIVATED then ''Deactivated''
      else if st = Some SUSPENDED then ''Suspended''
      else ''Unknown'')"

definition mkBlockRecord_app :: "ToggleStates \<Rightarrow> BlockRef \<Rightarrow> ProfileCheckResult \<Rightarrow> AccountRecord" where
  "mkBlockRecord_app toggles block res =
     (let status_label = block_status_label (r_status res);
          actualStatus = (case r_status res of None \<Rightarrow> UNKNOWN | Some s \<Rightarrow> if s = 0 then UNKNOWN else s)
      in \<lparr>did = b_did block,
          handle = or_else (r_handle res) ''[Unknown Handle]'',
          uri = b_uri block,
          status = actualStatus,
          status_label = status_label,
          toDelete = False,
          visible = toggle_or_true toggles actualStatus\<rparr>)"

text \<open>
  The same loop body in the other version: \<^verbatim>\<open>actualStatus\<close> starts as UNKNOWN and
  is assigned in the three branches that also set the label.
\<close>

definition mkBlockRecord_p0 :: "ToggleStates \<Rightarrow> BlockRef \<Rightarrow> ProfileCheckResult \<Rightarrow> AccountRecord" where
  "mkBlockRecord_p0 toggles block res =
     (let (status_label, actualStatus) =
            (if r_status res = Some DELETED then (''Deleted'', DELETED)
             else if r_status res = Some DEACTIVATED then (''Deactivated'', DEACTIVATED)
             else if r_status res = Some SUSPENDED then (''Suspended'', SUSPENDED)
             else (''Unknown'', UNKNOWN))
      in \<lparr>did = b_did block,
          handle = or_else (r_handle res) ''[Unknown Handle]'',
          uri = b_uri block,
          status = actualStatus,
          status_label = status_label,
          toDelete = False,
          visible = toggle_or_true toggles actualStatus\<rparr>)"

text \<open>
  The loop over the stale records: one classification after the other; an exception of
  the classifier ends the loop and the function. \<open>mk\<close> is the loop body of the version.
\<close>

fun classify_blocks ::
  "(BlockRef \<Rightarrow> ProfileCheckResult \<Rightarrow> AccountRecord) \<Rightarrow> (string \<Rightarrow> js_exception + ProfileCheckResult) \<Rightarrow>
   BlockRef list \<Rightarrow> AccountRecord list \<Rightarrow> js_exception + AccountRecord list" where
  "classify_blocks mk check [] tmpBlocks = Inr tmpBlocks"
| "classify_blocks mk check (block # rest) tmpBlocks =
     (case check (b_did block) of
        Inl ex \<Rightarrow> Inl ex
      | Inr res \<Rightarrow> classify_blocks mk check rest (tmpBlocks @ [mk block res]))"

section \<open>Paginated listings\<close>

text \<open>
  The items of the two listings: a blocked account of \<^verbatim>\<open>app.bsky.graph.getBlocks\<close>
  (the code reads its \<^verbatim>\<open>did\<close>) and a record of
  \<^verbatim>\<open>com.atproto.repo.listRecords\<close> (the code reads \<^verbatim>\<open>uri\<close> and
  \<^verbatim>\<open>value.subject\<close>).
\<close>

record BlockedProfile =
  bp_did :: string
  bp_handle :: string

record RepoRecord =
  rec_uri :: string
  rec_subject :: string

text \<open>
  \<^verbatim>\<open>res = await fetchPage(cursor); if (!res.ok) throw new Error(res.data.error)\<close> in
  \<^verbatim>\<open>src/App.tsx\<close>, and \<^verbatim>\<open>res = await fetchPage(cursor)\<close> with a client that
  throws in the other version: a page, or an exception that leaves the function.
\<close>

definition page_or_throw_app :: "'a page client_result \<Rightarrow> js_exception + 'a page" where
  "page_or_throw_app res =
     (case res of Ok p \<Rightarrow> Inr p | NotOk e \<Rightarrow> Inl (RpcError (eb_error e)) | Rejected \<Rightarrow> Inl RpcRejected)"

definition page_or_throw_p0 :: "'a page xrpc_result \<Rightarrow> js_exception + 'a page" where
  "page_or_throw_p0 res = (case res of Resolved p \<Rightarrow> Inr p | Thrown e \<Rightarrow> Inl (XrpcThrown e))"

text \<open>
  The loop of \<^verbatim>\<open>fetchBlocks\<close>:
  \<^verbatim>\<open>while (res.data.cursor) { res = await fetchPage(res.data.cursor); blocks = blocks.concat(res.data.blocks) }\<close>.
  It runs for as long as the server hands out cursors, so it is a partial function:
  \<open>None\<close> is a run that never ends. \<open>reqs\<close> is the log of the page requests made, each
  with its cursor.
\<close>

partial_function (option) blocks_loop ::
  "(string option \<Rightarrow> js_exception + 'a page) \<Rightarrow> 'a page \<Rightarrow> 'a list \<Rightarrow> string option list \<Rightarrow>
   ((js_exception + 'a list) \<times> string option list) option" where
  "blocks_loop fetchPage res blocks reqs =
     (if truthy_str (cursor res)
      then (case fetchPage (cursor res) of
              Inl ex \<Rightarrow> Some (Inl ex, reqs @ [cursor res])
            | Inr res' \<Rightarrow> blocks_loop fetchPage res' (blocks @ items res') (reqs @ [cursor res]))
      else Some (Inr blocks, reqs))"

definition getBlocks_all ::
  "(string option \<Rightarrow> js_exception + 'a page) \<Rightarrow> ((js_exception + 'a list) \<times> string option list) option" where
  "getBlocks_all fetchPage =
     (case fetchPage None of
        Inl ex \<Rightarrow> Some (Inl ex, [None])
      | Inr res \<Rightarrow> blocks_loop fetchPage res (items res) [None])"

text \<open>
  The loop of \<^verbatim>\<open>fetchFollows\<close>:
  \<^verbatim>\<open>while (res.data.cursor && res.data.records.length >= PAGE_LIMIT) { ... }\<close>, with
  \<^verbatim>\<open>PAGE_LIMIT\<close> as a parameter (the code fixes it to 100).
\<close>

partial_function (option) follows_loop ::
  "nat \<Rightarrow> (string option \<Rightarrow> js_exception + 'a page) \<Rightarrow> 'a page \<Rightarrow> 'a list \<Rightarrow> string option list \<Rightarrow>
   ((js_exception + 'a list) \<times> string option list) option" where
  "follows_loop PAGE_LIMIT fetchPage res follows reqs =
     (if truthy_str (cursor res) \<and> PAGE_LIMIT \<le> length (items res)
      then (case fetchPage (cursor res) of
              Inl ex \<Rightarrow> Some (Inl ex, reqs @ [cursor res])
            | Inr res' \<Rightarrow> follows_loop PAGE_LIMIT fetchPage res' (follows @ items res') (reqs @ [cursor res]))
      else Some (Inr follows, reqs))"

definition listFollows_all ::
  "nat \<Rightarrow> (string option \<Rightarrow> js_exception + 'a page) \<Rightarrow>
   ((js_exception + 'a list) \<times> string option list) option" where
  "listFollows_all PAGE_LIMIT fetchPage =
     (case fetchPage None of
        Inl ex \<Rightarrow> Some (Inl ex, [None])
      | Inr res \<Rightarrow> follows_loop PAGE_LIMIT fetchPage res (items res) [None])"

text \<open>
  \<^verbatim>\<open>fetchFollows\<close> of the two versions. \<open>listRecords\<close> is the endpoint for the
  user's own repository: collection, limit, cursor.
\<close>

definition fetchFollows_app ::
  "(string \<Rightarrow> nat \<Rightarrow> string option \<Rightarrow> RepoRecord page client_result) \<Rightarrow>
   ((js_exception + RepoRecord list) \<times> string option list) option" where
  "fetchFollows_app listRecords =
     listFollows_all 100 (\<lambda>c. page_or_throw_app (listRecords ''app.bsky.graph.follow'' 100 c))"

definition fetchFollows_p0 ::
  "(string \<Rightarrow> nat \<Rightarrow> string option \<Rightarrow> RepoRecord page xrpc_result) \<Rightarrow>
   ((js_exception + RepoRecord list) \<times> string option list) option" where
  "fetchFollows_p0 listRecords =
     listFollows_all 100 (\<lambda>c. page_or_throw_p0 (listRecords ''app.bsky.graph.follow'' 100 c))"

text \<open>The first half of \<^verbatim>\<open>fetchBlocks\<close>: all active blocks, 50 per page.\<close>

definition activeBlocks_app ::
  "(nat \<Rightarrow> string option \<Rightarrow> BlockedProfile page client_result) \<Rightarrow>
   ((js_exception + BlockedProfile list) \<times> string option list) option" where
  "activeBlocks_app getBlocks = getBlocks_all (\<lambda>c. page_or_throw_app (getBlocks 50 c))"

definition activeBlocks_p0 ::
  "(nat \<Rightarrow> string option \<Rightarrow> BlockedProfile page xrpc_result) \<Rightarrow>
   ((js_exception + BlockedProfile list) \<times> string option list) option" where
  "activeBlocks_p0 getBlocks = getBlocks_all (\<lambda>c. page_or_throw_p0 (getBlocks 50 c))"

text \<open>
  The \<^verbatim>\<open>do { ... } while (cursor)\<close> loops over the block records of the
  repository. There are two in each version: the one of \<^verbatim>\<open>fetchHiddenAccounts\<close>
  pushes every record, the one of \<^verbatim>\<open>fetchBlocks\<close> keeps the records whose subject
  is in the set of active blocks. They differ in the loop body (\<open>step\<close>, run over the
  records of a page) and in what a failed request does, so the loop is written once:
  a request gives a page, ends the loop (\<^verbatim>\<open>break\<close>) or throws.
\<close>

datatype 'a page_outcome = Got "'a page" | Stop | Raise js_exception

partial_function (option) list_pages ::
  "(string option \<Rightarrow> 'a page_outcome) \<Rightarrow> ('s \<Rightarrow> 'a \<Rightarrow> 's) \<Rightarrow> string option \<Rightarrow> 's \<Rightarrow>
   (js_exception + 's) option" where
  "list_pages fetchPage step c s =
     (case fetchPage c of
        Raise ex \<Rightarrow> Some (Inl ex)
      | Stop \<Rightarrow> Some (Inr s)
      | Got p \<Rightarrow>
          (let s' = foldl step s (items p)
           in if truthy_str (cursor p) then list_pages fetchPage step (cursor p) s'
              else Some (Inr s')))"

text \<open>
  The loop of \<^verbatim>\<open>fetchHiddenAccounts\<close>. In \<^verbatim>\<open>src/App.tsx\<close> a response that is
  not ok ends the loop with the records listed so far, and a rejected call throws; in
  the other version every failure throws.
\<close>

definition push_block :: "BlockRef list \<Rightarrow> RepoRecord \<Rightarrow> BlockRef list" where
  "push_block acc r = acc @ [\<lparr>b_did = rec_subject r, b_uri = rec_uri r\<rparr>]"

definition allBlockRecords_app ::
  "(string \<Rightarrow> nat \<Rightarrow> string option \<Rightarrow> RepoRecord page client_result) \<Rightarrow>
   (js_exception + BlockRef list) option" where
  "allBlockRecords_app listRecords =
     list_pages
       (\<lambda>c. case listRecords ''app.bsky.graph.block'' 100 c of
               Ok p \<Rightarrow> Got p | NotOk e \<Rightarrow> Stop | Rejected \<Rightarrow> Raise RpcRejected)
       push_block None []"

definition allBlockRecords_p0 ::
  "(string \<Rightarrow> nat \<Rightarrow> string option \<Rightarrow> RepoRecord page xrpc_result) \<Rightarrow>
   (js_exception + BlockRef list) option" where
  "allBlockRecords_p0 listRecords =
     list_pages
       (\<lambda>c. case listRecords ''app.bsky.graph.block'' 100 c of
               Resolved p \<Rightarrow> Got p | Thrown e \<Rightarrow> Raise (XrpcThrown e))
       push_block None []"

text \<open>
  \<^verbatim>\<open>fetchBlocks\<close>: the active blocks, as a set of identifiers; then the records of
  the repository whose subject is in the set, each subject once (a matched identifier
  is deleted from the set). A failure of the second listing is caught and ends it.
\<close>

definition scan_step :: "string set \<times> BlockRef list \<Rightarrow> RepoRecord \<Rightarrow> string set \<times> BlockRef list" where
  "scan_step s r =
     (case s of (blockedDids, blockUris) \<Rightarrow>
        if rec_subject r \<in> blockedDids
        then (blockedDids - {rec_subject r}, blockUris @ [\<lparr>b_did = rec_subject r, b_uri = rec_uri r\<rparr>])
        else (blockedDids, blockUris))"

definition fetchBlocks_app ::
  "(nat \<Rightarrow> string option \<Rightarrow> BlockedProfile page client_result) \<Rightarrow>
   (string \<Rightarrow> nat \<Rightarrow> string option \<Rightarrow> RepoRecord page client_result) \<Rightarrow>
   (js_exception + BlockRef list) option" where
  "fetchBlocks_app getBlocks listRecords =
     (case activeBlocks_app getBlocks of
        None \<Rightarrow> None
      | Some (Inl ex, reqs) \<Rightarrow> Some (Inl ex)
      | Some (Inr blocks, reqs) \<Rightarrow>
          (case list_pages
                  (\<lambda>c. case listRecords ''app.bsky.graph.block'' 100 c of
                          Ok p \<Rightarrow> Got p | NotOk e \<Rightarrow> Stop | Rejected \<Rightarrow> Stop)
                  scan_step None (set (map bp_did blocks), []) of
             None \<Rightarrow> None
           | Some (Inl ex) \<Rightarrow> Some (Inl ex)
           | Some (Inr (blockedDids, blockUris)) \<Rightarrow> Some (Inr blockUris)))"

definition fetchBlocks_p0 ::
  "(nat \<Rightarrow> string option \<Rightarrow> BlockedProfile page xrpc_result) \<Rightarrow>
   (string \<Rightarrow> nat \<Rightarrow> string option \<Rightarrow> RepoRecord page xrpc_result) \<Rightarrow>
   (js_exception + BlockRef list) option" where
  "fetchBlocks_p0 getBlocks listRecords =
     (case activeBlocks_p0 getBlocks of
        None \<Rightarrow> None
      | Some (Inl ex, reqs) \<Rightarrow> Some (Inl ex)
      | Some (Inr blocks, reqs) \<Rightarrow>
          (case list_pages
                  (\<lambda>c. case listRecords ''app.bsky.graph.block'' 100 c of
                          Resolved p \<Rightarrow> Got p | Thrown e \<Rightarrow> Stop)
                  scan_step None (set (map bp_did blocks), []) of
             None \<Rightarrow> None
           | Some (Inl ex) \<Rightarrow> Some (Inl ex)
           | Some (Inr (blockedDids, blockUris)) \<Rightarrow> Some (Inr blockUris)))"

section \<open>Block mode: the reconciliation\<close>

text \<open>
  The start of the block branch of \<^verbatim>\<open>fetchHiddenAccounts\<close>: all block records,
  then \<^verbatim>\<open>fetchBlocks\<close>, then
  \<^verbatim>\<open>allBlockRecords.filter(record => !activeDids.has(record.did))\<close>.
  The repository is listed twice, by two sequences of requests sent at different times:
  by the loop of \<^verbatim>\<open>fetchHiddenAccounts\<close> and, after the active blocks have been
  fetched, by the loop inside \<^verbatim>\<open>fetchBlocks\<close>. The network may answer them
  differently, so each has its own answers: \<open>listRecords\<close> for the first listing and
  \<open>listRecordsAgain\<close> for the second.
\<close>

definition blocksToDelete_app ::
  "(nat \<Rightarrow> string option \<Rightarrow> BlockedProfile page client_result) \<Rightarrow>
   (string \<Rightarrow> nat \<Rightarrow> string option \<Rightarrow> RepoRecord page client_result) \<Rightarrow>
   (string \<Rightarrow> nat \<Rightarrow> string option \<Rightarrow> RepoRecord page client_result) \<Rightarrow>
   (js_exception + BlockRef list) option" where
  "blocksToDelete_app getBlocks listRecords listRecordsAgain =
     (case allBlockRecords_app listRecords of
        None \<Rightarrow> None
      | Some (Inl ex) \<Rightarrow> Some (Inl ex)
      | Some (Inr allBlockRecords) \<Rightarrow>
          (case fetchBlocks_app getBlocks listRecordsAgain of
             None \<Rightarrow> None
           | Some (Inl ex) \<Rightarrow> Some (Inl ex)
           | Some (Inr activeBlocks) \<Rightarrow>
               (let activeDids = set (map b_did activeBlocks)
                in Some (Inr (filter (\<lambda>record. b_did record \<notin> activeDids) allBlockRecords)))))"

definition blocksToDelete_p0 ::
  "(nat \<Rightarrow> string option \<Rightarrow> BlockedProfile page xrpc_result) \<Rightarrow>
   (string \<Rightarrow> nat \<Rightarrow> string option \<Rightarrow> RepoRecord page xrpc_result) \<Rightarrow>
   (string \<Rightarrow> nat \<Rightarrow> string option \<Rightarrow> RepoRecord page xrpc_result) \<Rightarrow>
   (js_exception + BlockRef list) option" where
  "blocksToDelete_p0 getBlocks listRecords listRecordsAgain =
     (case allBlockRecords_p0 listRecords of
        None \<Rightarrow> None
      | Some (Inl ex) \<Rightarrow> Some (Inl ex)
      | Some (Inr allBlockRecords) \<Rightarrow>
          (case fetchBlocks_p0 getBlocks listRecordsAgain of
             None \<Rightarrow> None
           | Some (Inl ex) \<Rightarrow> Some (Inl ex)
           | Some (Inr activeBlocks) \<Rightarrow>
               (let activeDids = set (map b_did activeBlocks)
                in Some (Inr (filter (\<lambda>record. b_did record \<notin> activeDids) allBlockRecords)))))"

text \<open>
  The rest of the block branch: the stale records are classified one after the other
  (the pause after every tenth probe changes no state) and the records built are stored.
\<close>

definition store_blocks :: "AppState \<Rightarrow> AccountRecord list \<Rightarrow> AppState" where
  "store_blocks st tmpBlocks =
     st\<lparr>globalNotice := (if tmpBlocks = [] then AllBlocksActive else NoNotice),
        blockRecords := tmpBlocks, progress := 0, itemCount := 0\<rparr>"

definition fetchHiddenAccounts_blocks_app ::
  "(string \<Rightarrow> js_exception + ProfileCheckResult) \<Rightarrow>
   (nat \<Rightarrow> string option \<Rightarrow> BlockedProfile page client_result) \<Rightarrow>
   (string \<Rightarrow> nat \<Rightarrow> string option \<Rightarrow> RepoRecord page client_result) \<Rightarrow>
   (string \<Rightarrow> nat \<Rightarrow> string option \<Rightarrow> RepoRecord page client_result) \<Rightarrow>
   AppState \<Rightarrow> (js_exception + AppState) option" where
  "fetchHiddenAccounts_blocks_app check getBlocks listRecords listRecordsAgain st =
     (case blocksToDelete_app getBlocks listRecords listRecordsAgain of
        None \<Rightarrow> None
      | Some (Inl ex) \<Rightarrow> Some (Inl ex)
      | Some (Inr blocksToDelete) \<Rightarrow>
          (case classify_blocks (mkBlockRecord_app (blockToggleStates st)) check blocksToDelete [] of
             Inl ex \<Rightarrow> Some (Inl ex)
           | Inr tmpBlocks \<Rightarrow> Some (Inr (store_blocks st tmpBlocks))))"

definition fetchHiddenAccounts_blocks_p0 ::
  "(string \<Rightarrow> js_exception + ProfileCheckResult) \<Rightarrow>
   (nat \<Rightarrow> string option \<Rightarrow> BlockedProfile page xrpc_result) \<Rightarrow>
   (string \<Rightarrow> nat \<Rightarrow> string option \<Rightarrow> RepoRecord page xrpc_result) \<Rightarrow>
   (string \<Rightarrow> nat \<Rightarrow> string option \<Rightarrow> RepoRecord page xrpc_result) \<Rightarrow>
   AppState \<Rightarrow> (js_exception + AppState) option" where
  "fetchHiddenAccounts_blocks_p0 check getBlocks listRecords listRecordsAgain st =
     (case blocksToDelete_p0 getBlocks listRecords listRecordsAgain of
        None \<Rightarrow> None
      | Some (Inl ex) \<Rightarrow> Some (Inl ex)
      | Some (Inr blocksToDelete) \<Rightarrow>
          (case classify_blocks (mkBlockRecord_p0 (blockToggleStates st)) check blocksToDelete [] of
             Inl ex \<Rightarrow> Some (Inl ex)
           | Inr tmpBlocks \<Rightarrow> Some (Inr (store_blocks st tmpBlocks))))"

section \<open>Follow mode\<close>



text \<open>
  What one callback appends to \<^verbatim>\<open>tmpFollows\<close>: the record of the object literal
  in \<open>follow_callback\<close> when the classifier returned a defined status, nothing when the
  status is undefined or the classifier threw.
\<close>

definition follow_output ::
  "(string \<Rightarrow> js_exception + ProfileCheckResult) \<Rightarrow> ToggleStates \<Rightarrow> RepoRecord \<Rightarrow> AccountRecord list" where
  "follow_output check toggles record =
     (case check (rec_subject record) of
        Inl ex \<Rightarrow> []
      | Inr res \<Rightarrow>
          (case r_status res of
             None \<Rightarrow> []
           | Some s \<Rightarrow>
               [\<lparr>did = rec_subject record,
                 handle = or_else (r_handle res) ''[Unknown Handle]'',
                 uri = rec_uri record,
                 status = s,
                 status_label = follow_status_label (Some s),
                 toDelete = False,
                 visible = toggle_or_true toggles s\<rparr>]))"

section \<open>A listing endpoint\<close>

text \<open>
  The environment of claims C1 and C6, not part of the program: an endpoint that exposes the
  items \<open>xs\<close>, serves them \<open>lim\<close> at a time in their order, and returns a cursor with
  every page but the last. The cursor names the offset of the next page (it is a text of
  that length, so the cursor of a next page is never empty).
\<close>

definition paged_server :: "'a list \<Rightarrow> nat \<Rightarrow> string option \<Rightarrow> 'a page" where
  "paged_server xs lim c =
     (let off = (case c of None \<Rightarrow> 0 | Some s \<Rightarrow> length s)
      in \<lparr>items = take lim (drop off xs),
          cursor = (if off + lim < length xs then Some (replicate (off + lim) (CHR ''c'')) else None)\<rparr>)"

section \<open>Facts about the status flags\<close>

lemma status_values:
  "BLOCKEDBY = 1" "BLOCKING = 2" "DELETED = 4" "DEACTIVATED = 8" "SUSPENDED = 16"
  "HIDDEN = 32" "YOURSELF = 64" "UNKNOWN = 128"
  by (simp_all add: BLOCKEDBY_def BLOCKING_def DELETED_def DEACTIVATED_def SUSPENDED_def
      HIDDEN_def YOURSELF_def UNKNOWN_def)

lemma mutual_block_value: "BLOCKEDBY OR BLOCKING = 3"
  by (simp add: status_values)

section \<open>Facts about strings and the identity document\<close>

lemma str_includes_refl: "str_includes s s"
  by (simp add: str_includes_def)

lemma split_from_not_Nil: "split_from sep cur s \<noteq> []"
  by (induction sep cur s rule: split_from.induct) auto




section \<open>C8: the label of a mutual block\<close>

lemma checkProfileStatus_p0_statuses:
  assumes "checkProfileStatus_p0 agentDID getProfile fetchDoc actor = Inr res"
      and "r_status res = Some s"
  shows "s \<in> {BLOCKEDBY, BLOCKING, BLOCKEDBY OR BLOCKING, DELETED, DEACTIVATED, SUSPENDED, HIDDEN,
              YOURSELF, UNKNOWN}"
proof (cases "getProfile actor")
  case (Thrown e)
  with assms show ?thesis
    by (auto simp add: checkProfileStatus_p0_def error_status_p0_def Let_def split: if_splits)
next
  case (Resolved data)
  show ?thesis
  proof (cases data)
    case None
    with Resolved assms show ?thesis
      by (auto simp add: checkProfileStatus_p0_def)
  next
    case (Some p)
    with Resolved assms show ?thesis
      by (cases "viewer p") (auto simp add: checkProfileStatus_p0_def split: if_splits)
  qed
qed

lemma checkProfileStatus_app_statuses:
  assumes "checkProfileStatus_app agentDID getProfile fetchDoc actor = Inr res"
      and "r_status res = Some s"
  shows "s \<in> {BLOCKEDBY, BLOCKING, BLOCKEDBY OR BLOCKING, DELETED, DEACTIVATED, SUSPENDED, HIDDEN,
              YOURSELF, UNKNOWN}"
proof (cases "getProfile actor")
  case Rejected
  with assms show ?thesis
    by (simp add: checkProfileStatus_app_def)
next
  case (NotOk e)
  with assms show ?thesis
    by (cases "eb_message e") (auto simp add: checkProfileStatus_app_def split: if_splits)
next
  case (Ok p)
  show ?thesis
  proof (cases "has_hide_label p")
    case True
    with Ok assms show ?thesis
      by (auto simp add: checkProfileStatus_app_def)
  next
    case False
    with Ok assms show ?thesis
      by (cases "viewer p"; cases "pv_did p")
         (auto simp add: checkProfileStatus_app_def split: if_splits)
  qed
qed

lemma both_flags_returned:
  assumes "s \<in> {BLOCKEDBY, BLOCKING, BLOCKEDBY OR BLOCKING, DELETED, DEACTIVATED, SUSPENDED, HIDDEN,
              YOURSELF, UNKNOWN}"
      and "s AND (BLOCKEDBY OR BLOCKING) = BLOCKEDBY OR BLOCKING"
  shows "s = BLOCKEDBY OR BLOCKING"
  using assms by (auto simp add: status_values)

lemma follow_output_member:
  assumes "a \<in> set (follow_output check toggles follow)"
  shows "\<exists>res. check (rec_subject follow) = Inr res \<and> r_status res = Some (status a) \<and>
               status_label a = follow_status_label (Some (status a))"
proof (cases "check (rec_subject follow)")
  case (Inl ex)
  with assms show ?thesis
    by (simp add: follow_output_def)
next
  case (Inr res)
  with assms show ?thesis
    by (cases "r_status res") (auto simp add: follow_output_def)
qed

text \<open>
  The label chain compares the status with \<^verbatim>\<open>==\<close> against the listed values, and
  a value that is not listed gets the empty label: so would
  \<^verbatim>\<open>BLOCKEDBY | BLOCKING | DELETED\<close>. The chain receives only what the classifier
  returned, and the classifier of neither version returns such a value
  (\<open>checkProfileStatus_p0_statuses\<close>, \<open>checkProfileStatus_app_statuses\<close>): the one value
  with both flags that it returns is \<^verbatim>\<open>BLOCKEDBY | BLOCKING\<close>.
\<close>

lemma follow_status_label_unlisted:
  "follow_status_label (Some (BLOCKEDBY OR BLOCKING OR DELETED)) = []"
  by (simp add: follow_status_label_def status_values)

text \<open>
  C8: for every status that contains both the BLOCKEDBY and the BLOCKING flag, the label
  derivation yields exactly "Mutual Block", never "Blocked by" or "Blocking". The
  derivation is the label chain of the follow-mode callback, applied to the status that
  the classifier returned. For both versions: every status returned by the classifier
  that contains both flags gets the label "Mutual Block", and so every record that the
  callback builds with such a status carries that label; no status value at all that
  contains both flags gets the label of BLOCKEDBY alone or of BLOCKING alone.
\<close>

theorem C8_mutual_block_label:
  fixes agentDID :: string
    and getProfileX :: "string \<Rightarrow> ProfileViewDetailed option xrpc_result"
    and getProfileC :: "string \<Rightarrow> ProfileViewDetailed client_result"
    and fetchDoc :: "string \<Rightarrow> DidDocFetch"
  defines "check_p0 \<equiv> checkProfileStatus_p0 agentDID getProfileX fetchDoc"
      and "check_app \<equiv> checkProfileStatus_app agentDID getProfileC fetchDoc"
  shows "follow_status_label (Some (BLOCKEDBY OR BLOCKING)) = ''Mutual Block'' \<and>
         (\<forall>res s. check_p0 actor = Inr res \<and> r_status res = Some s \<and>
                  s AND (BLOCKEDBY OR BLOCKING) = BLOCKEDBY OR BLOCKING \<longrightarrow>
                  follow_status_label (r_status res) = ''Mutual Block'') \<and>
         (\<forall>res s. check_app actor = Inr res \<and> r_status res = Some s \<and>
                  s AND (BLOCKEDBY OR BLOCKING) = BLOCKEDBY OR BLOCKING \<longrightarrow>
                  follow_status_label (r_status res) = ''Mutual Block'') \<and>
         (\<forall>a \<in> set (follow_output check_p0 toggles follow).
            status a AND (BLOCKEDBY OR BLOCKING) = BLOCKEDBY OR BLOCKING \<longrightarrow>
            status_label a = ''Mutual Block'') \<and>
         (\<forall>a \<in> set (follow_output check_app toggles follow).
            status a AND (BLOCKEDBY OR BLOCKING) = BLOCKEDBY OR BLOCKING \<longrightarrow>
            status_label a = ''Mutual Block'') \<and>
         (\<forall>s. s AND (BLOCKEDBY OR BLOCKING) = BLOCKEDBY OR BLOCKING \<longrightarrow>
              follow_status_label (Some s) \<noteq> ''Blocked by'' \<and>
              follow_status_label (Some s) \<noteq> ''Blocking'')"
proof -
  have exact: "follow_status_label (Some (BLOCKEDBY OR BLOCKING)) = ''Mutual Block''"
    by (simp add: follow_status_label_def status_values)
  have p0: "follow_status_label (r_status res) = ''Mutual Block''"
    if run: "check_p0 actor = Inr res" and st: "r_status res = Some s"
      and both: "s AND (BLOCKEDBY OR BLOCKING) = BLOCKEDBY OR BLOCKING" for actor res s
  proof -
    have "s = BLOCKEDBY OR BLOCKING"
      by (rule both_flags_returned [OF checkProfileStatus_p0_statuses [OF run [unfolded check_p0_def] st] both])
    with st exact show ?thesis by simp
  qed
  have app: "follow_status_label (r_status res) = ''Mutual Block''"
    if run: "check_app actor = Inr res" and st: "r_status res = Some s"
      and both: "s AND (BLOCKEDBY OR BLOCKING) = BLOCKEDBY OR BLOCKING" for actor res s
  proof -
    have "s = BLOCKEDBY OR BLOCKING"
      by (rule both_flags_returned [OF checkProfileStatus_app_statuses [OF run [unfolded check_app_def] st] both])
    with st exact show ?thesis by simp
  qed
  have out_p0: "status_label a = ''Mutual Block''"
    if mem: "a \<in> set (follow_output check_p0 toggles follow)"
      and both: "status a AND (BLOCKEDBY OR BLOCKING) = BLOCKEDBY OR BLOCKING" for a
  proof -
    from follow_output_member [OF mem] obtain res where
      run: "check_p0 (rec_subject follow) = Inr res" and st: "r_status res = Some (status a)"
      and lab: "status_label a = follow_status_label (Some (status a))"
      by blast
    from p0 [OF run st both] st lab show ?thesis by simp
  qed
  have out_app: "status_label a = ''Mutual Block''"
    if mem: "a \<in> set (follow_output check_app toggles follow)"
      and both: "status a AND (BLOCKEDBY OR BLOCKING) = BLOCKEDBY OR BLOCKING" for a
  proof -
    from follow_output_member [OF mem] obtain res where
      run: "check_app (rec_subject follow) = Inr res" and st: "r_status res = Some (status a)"
      and lab: "status_label a = follow_status_label (Some (status a))"
      by blast
    from app [OF run st both] st lab show ?thesis by simp
  qed
  have never: "follow_status_label (Some s) \<noteq> ''Blocked by'' \<and>
               follow_status_label (Some s) \<noteq> ''Blocking''"
    if both: "s AND (BLOCKEDBY OR BLOCKING) = BLOCKEDBY OR BLOCKING" for s :: RepoStatus
    using both by (auto simp add: follow_status_label_def status_values)
  show ?thesis
  proof (intro conjI allI impI ballI)
    show "follow_status_label (Some (BLOCKEDBY OR BLOCKING)) = ''Mutual Block''"
      by (rule exact)
  next
    fix res s
    assume "check_p0 actor = Inr res \<and> r_status res = Some s \<and>
            s AND (BLOCKEDBY OR BLOCKING) = BLOCKEDBY OR BLOCKING"
    then show "follow_status_label (r_status res) = ''Mutual Block''"
      using p0 [of actor res s] by simp
  next
    fix res s
    assume "check_app actor = Inr res \<and> r_status res = Some s \<and>
            s AND (BLOCKEDBY OR BLOCKING) = BLOCKEDBY OR BLOCKING"
    then show "follow_status_label (r_status res) = ''Mutual Block''"
      using app [of actor res s] by simp
  next
    fix a
    assume "a \<in> set (follow_output check_p0 toggles follow)"
      and "status a AND (BLOCKEDBY OR BLOCKING) = BLOCKEDBY OR BLOCKING"
    then show "status_label a = ''Mutual Block''"
      by (rule out_p0)
  next
    fix a
    assume "a \<in> set (follow_output check_app toggles follow)"
      and "status a AND (BLOCKEDBY OR BLOCKING) = BLOCKEDBY OR BLOCKING"
    then show "status_label a = ''Mutual Block''"
      by (rule out_app)
  next
    fix s :: RepoStatus
    assume both: "s AND (BLOCKEDBY OR BLOCKING) = BLOCKEDBY OR BLOCKING"
    from never [OF both] show "follow_status_label (Some s) \<noteq> ''Blocked by''"
      by (rule conjunct1)
    from never [OF both] show "follow_status_label (Some s) \<noteq> ''Blocking''"
      by (rule conjunct2)
  qed
qed

theorem C8_mutual_block_label_witness:
  "checkProfileStatus_p0 ''did:plc:me''
      (\<lambda>a. Resolved (Some \<lparr>pv_did = Some ''did:plc:them'', pv_handle = Some ''them.test'',
                 labels = Some [],
                 viewer = Some \<lparr>blockedBy = Some True,
                                  blocking = Some ''at://did:plc:me/app.bsky.graph.block/3k'',
                                  blockingByList = None\<rparr>\<rparr>))
      (\<lambda>u. FetchFailed) ''did:plc:them''
     = Inr \<lparr>r_handle = Some ''them.test'', r_status = Some (BLOCKEDBY OR BLOCKING), r_error = None\<rparr> \<and>
   (BLOCKEDBY OR BLOCKING) AND (BLOCKEDBY OR BLOCKING) = BLOCKEDBY OR BLOCKING \<and>
   follow_status_label (r_status \<lparr>r_handle = Some ''them.test'', r_status = Some (BLOCKEDBY OR BLOCKING),
                                   r_error = None\<rparr>) = ''Mutual Block'' \<and>
   follow_status_label (Some (BLOCKEDBY OR BLOCKING)) \<noteq> ''Blocked by'' \<and>
   follow_status_label (Some (BLOCKEDBY OR BLOCKING)) \<noteq> ''Blocking''"
proof -
  let ?get = "\<lambda>a :: string. Resolved (Some \<lparr>pv_did = Some ''did:plc:them'', pv_handle = Some ''them.test'',
                 labels = Some [],
                 viewer = Some \<lparr>blockedBy = Some True,
                                  blocking = Some ''at://did:plc:me/app.bsky.graph.block/3k'',
                                  blockingByList = None\<rparr>\<rparr>)"
  let ?res = "\<lparr>r_handle = Some ''them.test'', r_status = Some (BLOCKEDBY OR BLOCKING), r_error = None\<rparr>"
  note inst = C8_mutual_block_label [where agentDID = "''did:plc:me''" and getProfileX = "?get"
      and fetchDoc = "\<lambda>u. FetchFailed" and actor = "''did:plc:them''"]
  have run: "checkProfileStatus_p0 ''did:plc:me'' ?get (\<lambda>u. FetchFailed) ''did:plc:them'' = Inr ?res"
    by (simp add: checkProfileStatus_p0_def has_hide_label_def viewer_blocks_def)
  have st: "r_status ?res = Some (BLOCKEDBY OR BLOCKING)"
    by simp
  have mutual: "(BLOCKEDBY OR BLOCKING) AND (BLOCKEDBY OR BLOCKING) = BLOCKEDBY OR BLOCKING"
    by simp
  from inst [THEN conjunct2, THEN conjunct1, rule_format, of ?res "BLOCKEDBY OR BLOCKING"] run st mutual
  have returned: "follow_status_label (r_status ?res) = ''Mutual Block''"
    by blast
  from inst [THEN conjunct2, THEN conjunct2, THEN conjunct2, THEN conjunct2, THEN conjunct2,
      rule_format, OF mutual]
  have never: "follow_status_label (Some (BLOCKEDBY OR BLOCKING)) \<noteq> ''Blocked by'' \<and>
               follow_status_label (Some (BLOCKEDBY OR BLOCKING)) \<noteq> ''Blocking''"
    .
  from run mutual returned never show ?thesis
    by (intro conjI) (rule run, rule mutual, rule returned, simp_all)
qed

section \<open>C3: the priority order of the classifier\<close>

text \<open>
  C3, as stated: a moderation label with value "hide" gives HIDDEN. Both versions compare
  the label value with \<^verbatim>\<open>"!hide"\<close>: a profile that carries the label "hide"
  and no block relationship gets no status at all.
\<close>

theorem C3_counterexample:
  "checkProfileStatus_app ''did:plc:me''
      (\<lambda>a. Ok \<lparr>pv_did = Some ''did:plc:them'', pv_handle = Some ''them.test'',
                 labels = Some [\<lparr>val = ''hide''\<rparr>],
                 viewer = Some \<lparr>blockedBy = None, blocking = None, blockingByList = None\<rparr>\<rparr>)
      (\<lambda>u. FetchFailed) ''did:plc:them''
     = Inr \<lparr>r_handle = Some ''them.test'', r_status = None, r_error = None\<rparr> \<and>
   checkProfileStatus_p0 ''did:plc:me''
      (\<lambda>a. Resolved (Some \<lparr>pv_did = Some ''did:plc:them'', pv_handle = Some ''them.test'',
                 labels = Some [\<lparr>val = ''hide''\<rparr>],
                 viewer = Some \<lparr>blockedBy = None, blocking = None, blockingByList = None\<rparr>\<rparr>))
      (\<lambda>u. FetchFailed) ''did:plc:them''
     = Inr \<lparr>r_handle = Some ''them.test'', r_status = None, r_error = None\<rparr>"
  by (simp add: checkProfileStatus_app_def checkProfileStatus_p0_def has_hide_label_def
      viewer_blocks_def str_includes_def sublist_code)

text \<open>
  C3, amended: for a successful profile fetch that carries an identifier, a handle and
  the viewer object, the classifier of both versions returns the handle and the status
  given by this priority order: a label with value \<^verbatim>\<open>"!hide"\<close> gives HIDDEN; else,
  when the viewer is blocked by the subject, BLOCKEDBY, or BLOCKEDBY|BLOCKING when the
  viewer also blocks the subject (directly or through a list); else, when the subject's
  identifier is the authenticated user's, YOURSELF; else, when the viewer blocks the
  subject (directly or through a list), BLOCKING; else no status. \<^verbatim>\<open>src/App.tsx\<close>
  tests the identifier with \<^verbatim>\<open>includes\<close>; the statement covers it where that test
  agrees with equality.
\<close>

theorem C3_priority:
  fixes p :: ProfileViewDetailed and v :: ViewerState and agentDID d h :: string
  defines "hide \<equiv> \<exists>ls. labels p = Some ls \<and> (\<exists>l \<in> set ls. val l = ''!hide'')"
      and "blocked \<equiv> blockedBy v = Some True"
      and "blocks \<equiv> (\<exists>u. blocking v = Some u \<and> u \<noteq> []) \<or> blockingByList v \<noteq> None"
  defines "expected \<equiv>
            (if hide then Some HIDDEN
             else if blocked then (if blocks then Some (BLOCKEDBY OR BLOCKING) else Some BLOCKEDBY)
             else if d = agentDID then Some YOURSELF
             else if blocks then Some BLOCKING
             else None)"
  assumes wf: "pv_did p = Some d" "d \<noteq> []" "pv_handle p = Some h" "h \<noteq> []"
      and vw: "viewer p = Some v"
  shows "(getProfileX actor = Resolved (Some p) \<longrightarrow>
            checkProfileStatus_p0 agentDID getProfileX fetchDoc actor
              = Inr \<lparr>r_handle = Some h, r_status = expected, r_error = None\<rparr>) \<and>
         (getProfileC actor = Ok p \<and> (str_includes d agentDID \<longrightarrow> d = agentDID) \<longrightarrow>
            checkProfileStatus_app agentDID getProfileC fetchDoc actor
              = Inr \<lparr>r_handle = Some h, r_status = expected, r_error = None\<rparr>)"
proof -
  have hide: "has_hide_label p = hide"
    by (auto simp add: has_hide_label_def hide_def list_ex_iff split: option.splits)
  have blocked: "truthy_bool (blockedBy v) = blocked"
    by (cases "blockedBy v") (auto simp add: blocked_def)
  have blocks: "viewer_blocks v = blocks"
    by (cases "blocking v") (auto simp add: viewer_blocks_def blocks_def)
  have p0: "checkProfileStatus_p0 agentDID getProfileX fetchDoc actor
              = Inr \<lparr>r_handle = Some h, r_status = expected, r_error = None\<rparr>"
    if "getProfileX actor = Resolved (Some p)"
    using that wf vw by (simp add: checkProfileStatus_p0_def hide blocked blocks expected_def)
  have app: "checkProfileStatus_app agentDID getProfileC fetchDoc actor
              = Inr \<lparr>r_handle = Some h, r_status = expected, r_error = None\<rparr>"
    if "getProfileC actor = Ok p" and "str_includes d agentDID \<longrightarrow> d = agentDID"
    using that wf vw str_includes_refl [of d]
    by (auto simp add: checkProfileStatus_app_def hide blocked blocks expected_def)
  from p0 app show ?thesis by blast
qed

theorem C3_priority_witness:
  "checkProfileStatus_p0 ''did:plc:me''
      (\<lambda>a. Resolved (Some \<lparr>pv_did = Some ''did:plc:them'', pv_handle = Some ''them.test'',
                 labels = Some [\<lparr>val = ''!hide''\<rparr>],
                 viewer = Some \<lparr>blockedBy = Some True, blocking = Some ''at://did:plc:me/app.bsky.graph.block/3k'',
                                  blockingByList = None\<rparr>\<rparr>))
      (\<lambda>u. FetchFailed) ''did:plc:them''
     = Inr \<lparr>r_handle = Some ''them.test'', r_status = Some HIDDEN, r_error = None\<rparr> \<and>
   checkProfileStatus_app ''did:plc:me''
      (\<lambda>a. Ok \<lparr>pv_did = Some ''did:plc:them'', pv_handle = Some ''them.test'',
                 labels = Some [],
                 viewer = Some \<lparr>blockedBy = Some True, blocking = Some ''at://did:plc:me/app.bsky.graph.block/3k'',
                                  blockingByList = None\<rparr>\<rparr>)
      (\<lambda>u. FetchFailed) ''did:plc:them''
     = Inr \<lparr>r_handle = Some ''them.test'', r_status = Some (BLOCKEDBY OR BLOCKING), r_error = None\<rparr>"
proof -
  let ?v = "\<lparr>blockedBy = Some True, blocking = Some ''at://did:plc:me/app.bsky.graph.block/3k'',
             blockingByList = None\<rparr>"
  let ?p = "\<lparr>pv_did = Some ''did:plc:them'', pv_handle = Some ''them.test'',
             labels = Some [\<lparr>val = ''!hide''\<rparr>], viewer = Some ?v\<rparr>"
  let ?q = "\<lparr>pv_did = Some ''did:plc:them'', pv_handle = Some ''them.test'',
             labels = Some [], viewer = Some ?v\<rparr>"
  have not_me: "\<not> str_includes ''did:plc:them'' ''did:plc:me''"
    by (simp add: str_includes_def sublist_code)
  have a: "checkProfileStatus_p0 ''did:plc:me'' (\<lambda>a. Resolved (Some ?p)) (\<lambda>u. FetchFailed) ''did:plc:them''
     = Inr \<lparr>r_handle = Some ''them.test'', r_status = Some HIDDEN, r_error = None\<rparr>"
    using C3_priority [where p = ?p and d = "''did:plc:them''" and h = "''them.test''" and v = ?v
        and getProfileX = "\<lambda>a. Resolved (Some ?p)" and agentDID = "''did:plc:me''"
        and actor = "''did:plc:them''" and fetchDoc = "\<lambda>u. FetchFailed"]
    by simp
  have b: "checkProfileStatus_app ''did:plc:me'' (\<lambda>a. Ok ?q) (\<lambda>u. FetchFailed) ''did:plc:them''
     = Inr \<lparr>r_handle = Some ''them.test'', r_status = Some (BLOCKEDBY OR BLOCKING), r_error = None\<rparr>"
    using C3_priority [where p = ?q and d = "''did:plc:them''" and h = "''them.test''" and v = ?v
        and getProfileC = "\<lambda>a. Ok ?q" and agentDID = "''did:plc:me''"
        and actor = "''did:plc:them''" and fetchDoc = "\<lambda>u. FetchFailed"] not_me
    by simp
  from a b show ?thesis by simp
qed

section \<open>C4: a failed profile fetch\<close>




section \<open>C9: turning a toggle off\<close>

lemma set_field_idem: "set_field f v (set_field f v r) = set_field f v r"
  by (cases f) (simp_all add: set_field_def)

lemma status_set_field: "status (set_field f v r) = status r"
  by (cases f) (simp_all add: set_field_def)

lemma set_at_indices_length: "length (set_at_indices idxs f v rs) = length rs"
  unfolding set_at_indices_def by (induction idxs arbitrary: rs) simp_all

lemma set_at_indices_nth:
  "i < length rs \<Longrightarrow>
   set_at_indices idxs f v rs ! i = (if i \<in> set idxs then set_field f v (rs ! i) else rs ! i)"
  unfolding set_at_indices_def
proof (induction idxs arbitrary: rs)
  case Nil
  then show ?case by simp
next
  case (Cons j js)
  let ?rs' = "if j < length rs then rs[j := set_field f v (rs ! j)] else rs"
  have len: "i < length ?rs'" using Cons.prems by simp
  have at: "?rs' ! i = (if i = j then set_field f v (rs ! i) else rs ! i)"
    using Cons.prems by (simp add: nth_list_update)
  have "foldl (\<lambda>acc i. if i < length acc then acc[i := set_field f v (acc ! i)] else acc) ?rs' js ! i
          = (if i \<in> set js then set_field f v (?rs' ! i) else ?rs' ! i)"
    by (rule Cons.IH [OF len])
  also have "\<dots> = (if i \<in> set (j # js) then set_field f v (rs ! i) else rs ! i)"
    unfolding at by (simp add: set_field_idem)
  finally show ?case by simp
qed

lemma matching_indices_iff:
  "i \<in> set (matching_indices rs s) \<longleftrightarrow> i < length rs \<and> status (rs ! i) AND s \<noteq> 0"
  by (auto simp add: matching_indices_def)

lemma currentRecords_set: "currentRecords (setCurrentRecords st rs) = rs"
  by (simp add: currentRecords_def setCurrentRecords_def)

lemma currentMode_set: "currentMode (setCurrentRecords st rs) = currentMode st"
  by (simp add: setCurrentRecords_def)

lemma currentRecords_editRecords:
  "currentRecords (editRecords st s f v)
     = map (\<lambda>r. if status r AND s \<noteq> 0 then set_field f v r else r) (currentRecords st)"
  by (rule nth_equalityI)
     (simp_all add: editRecords_def currentRecords_set set_at_indices_length set_at_indices_nth
        matching_indices_iff)

lemma currentMode_editRecords: "currentMode (editRecords st s f v) = currentMode st"
  by (simp add: editRecords_def currentMode_set)

lemma currentToggleStates_editRecords:
  "currentToggleStates (editRecords st s f v) = currentToggleStates st"
  by (simp add: editRecords_def setCurrentRecords_def currentToggleStates_def)

lemma currentRecords_setToggle:
  "currentRecords (setCurrentToggleStates st s v) = currentRecords st"
  by (simp add: setCurrentToggleStates_def currentRecords_def)

lemma currentMode_setToggle: "currentMode (setCurrentToggleStates st s v) = currentMode st"
  by (simp add: setCurrentToggleStates_def)

lemma currentToggleStates_setToggle:
  "currentToggleStates (setCurrentToggleStates st s v) = (currentToggleStates st)(s \<mapsto> v)"
  by (simp add: setCurrentToggleStates_def currentToggleStates_def)

lemma currentRecords_toggle_off:
  "currentRecords (updateToggleState st cat False)
     = map (\<lambda>r. if status r AND cat \<noteq> 0 then r\<lparr>visible := False, toDelete := False\<rparr> else r)
         (currentRecords st)"
  by (simp add: updateToggleState_def Let_def currentRecords_editRecords currentRecords_setToggle
      set_field_def comp_def)

text \<open>
  C9: turning the toggle of a status category off sets \<open>visible\<close> and \<open>toDelete\<close> to
  false on every record of the active mode whose status matches the category (the match
  of the code: \<^verbatim>\<open>record.status & status\<close> is not zero, which holds in particular
  when the status is the category), whatever \<open>toDelete\<close> was before. All other records,
  and the order of the records, stay as they are; the toggle of the category reads false.
\<close>

theorem C9_toggle_off:
  "currentRecords (updateToggleState st cat False)
     = map (\<lambda>r. if status r AND cat \<noteq> 0 then r\<lparr>visible := False, toDelete := False\<rparr> else r)
         (currentRecords st) \<and>
   currentToggleStates (updateToggleState st cat False) = (currentToggleStates st)(cat \<mapsto> False) \<and>
   currentMode (updateToggleState st cat False) = currentMode st \<and>
   (\<forall>r \<in> set (currentRecords (updateToggleState st cat False)).
      status r AND cat \<noteq> 0 \<longrightarrow> \<not> visible r \<and> \<not> toDelete r) \<and>
   (\<forall>r \<in> set (currentRecords (updateToggleState st cat False)).
      cat \<noteq> 0 \<and> status r = cat \<longrightarrow> \<not> visible r \<and> \<not> toDelete r)"
proof -
  have recs: "currentRecords (updateToggleState st cat False)
     = map (\<lambda>r. if status r AND cat \<noteq> 0 then r\<lparr>visible := False, toDelete := False\<rparr> else r)
         (currentRecords st)"
    by (rule currentRecords_toggle_off)
  have tog: "currentToggleStates (updateToggleState st cat False) = (currentToggleStates st)(cat \<mapsto> False)"
    by (simp add: updateToggleState_def Let_def currentToggleStates_editRecords
        currentToggleStates_setToggle)
  have mode: "currentMode (updateToggleState st cat False) = currentMode st"
    by (simp add: updateToggleState_def Let_def currentMode_editRecords currentMode_setToggle)
  have hidden: "\<not> visible r \<and> \<not> toDelete r"
    if "r \<in> set (currentRecords (updateToggleState st cat False))" and "status r AND cat \<noteq> 0" for r
    using that unfolding recs by (auto split: if_splits)
  have same: "\<not> visible r \<and> \<not> toDelete r"
    if "r \<in> set (currentRecords (updateToggleState st cat False))"
      and "cat \<noteq> 0 \<and> status r = cat" for r
    using hidden [OF that(1)] that(2) by simp
  show ?thesis
    apply (intro conjI ballI impI)
    subgoal by (rule recs)
    subgoal by (rule tog)
    subgoal by (rule mode)
    subgoal for r using hidden [of r] by simp
    subgoal for r using hidden [of r] by simp
    subgoal for r using same [of r] by simp
    subgoal for r using same [of r] by simp
    done
qed

theorem C9_toggle_off_witness:
  "currentRecords (updateToggleState
      \<lparr>followRecords =
         [\<lparr>did = ''did:plc:a'', handle = ''a.test'', uri = ''at://did:plc:me/app.bsky.graph.follow/1'',
           status = DELETED, status_label = ''Deleted'', toDelete = True, visible = True\<rparr>,
          \<lparr>did = ''did:plc:b'', handle = ''b.test'', uri = ''at://did:plc:me/app.bsky.graph.follow/2'',
           status = BLOCKING, status_label = ''Blocking'', toDelete = True, visible = True\<rparr>],
       blockRecords = [], followToggleStates = followToggleStates0,
       blockToggleStates = blockToggleStates0, currentMode = FOLLOWS, globalNotice = NoNotice,
       progress = 0, itemCount = 0\<rparr> DELETED False)
   = [\<lparr>did = ''did:plc:a'', handle = ''a.test'', uri = ''at://did:plc:me/app.bsky.graph.follow/1'',
       status = DELETED, status_label = ''Deleted'', toDelete = False, visible = False\<rparr>,
      \<lparr>did = ''did:plc:b'', handle = ''b.test'', uri = ''at://did:plc:me/app.bsky.graph.follow/2'',
       status = BLOCKING, status_label = ''Blocking'', toDelete = True, visible = True\<rparr>]"
proof -
  let ?st = "\<lparr>followRecords =
         [\<lparr>did = ''did:plc:a'', handle = ''a.test'', uri = ''at://did:plc:me/app.bsky.graph.follow/1'',
           status = DELETED, status_label = ''Deleted'', toDelete = True, visible = True\<rparr>,
          \<lparr>did = ''did:plc:b'', handle = ''b.test'', uri = ''at://did:plc:me/app.bsky.graph.follow/2'',
           status = BLOCKING, status_label = ''Blocking'', toDelete = True, visible = True\<rparr>],
       blockRecords = [], followToggleStates = followToggleStates0,
       blockToggleStates = blockToggleStates0, currentMode = FOLLOWS, globalNotice = NoNotice,
       progress = 0, itemCount = 0\<rparr>"
  have cur: "currentRecords ?st = followRecords ?st"
    by (simp add: currentRecords_def)
  have "currentRecords (updateToggleState ?st DELETED False)
     = map (\<lambda>r. if status r AND DELETED \<noteq> 0 then r\<lparr>visible := False, toDelete := False\<rparr> else r)
         (currentRecords ?st)"
    using C9_toggle_off [of ?st DELETED] by (rule conjunct1)
  then show ?thesis
    unfolding cur by (simp add: status_values)
qed

section \<open>C7: batched deletion\<close>

declare post_batches.simps [simp del]

lemma takeWhile_neq_in:
  "s \<in> set xs \<Longrightarrow> takeWhile (\<lambda>c. c \<noteq> s) (xs @ ys) = takeWhile (\<lambda>c. c \<noteq> s) xs"
  by (rule takeWhile_append1 [where x = s]) auto

lemma takeWhile_neq_out:
  "s \<notin> set xs \<Longrightarrow> takeWhile (\<lambda>c. c \<noteq> s) (xs @ ys) = xs @ takeWhile (\<lambda>c. c \<noteq> s) ys"
  by (rule takeWhile_append2) auto

lemma takeWhile_neq_all: "s \<notin> set xs \<Longrightarrow> takeWhile (\<lambda>c. c \<noteq> s) xs = xs"
  using takeWhile_neq_out [of s xs "[]"] by simp

lemma last_split_from_single:
  "last (split_from [s] cur rest)
     = (if s \<in> set rest then rev (takeWhile (\<lambda>c. c \<noteq> s) (rev rest)) else cur @ rest)"
proof (induction rest arbitrary: cur)
  case Nil
  then show ?case by simp
next
  case (Cons c cs)
  show ?case
  proof (cases "c = s")
    case True
    have "last (split_from [s] cur (c # cs)) = last (split_from [s] [] cs)"
      using True by (simp add: split_from_not_Nil)
    also have "\<dots> = (if s \<in> set cs then rev (takeWhile (\<lambda>c. c \<noteq> s) (rev cs)) else cs)"
      by (simp add: Cons.IH)
    also have "\<dots> = rev (takeWhile (\<lambda>c. c \<noteq> s) (rev (c # cs)))"
      using True by (simp add: takeWhile_neq_in takeWhile_neq_out)
    finally show ?thesis using True by simp
  next
    case False
    have "last (split_from [s] cur (c # cs)) = last (split_from [s] (cur @ [c]) cs)"
      using False by simp
    also have "\<dots> = (if s \<in> set cs then rev (takeWhile (\<lambda>c. c \<noteq> s) (rev cs)) else cur @ c # cs)"
      by (simp add: Cons.IH)
    also have "\<dots> = (if s \<in> set (c # cs) then rev (takeWhile (\<lambda>c. c \<noteq> s) (rev (c # cs)))
                    else cur @ c # cs)"
      using False by (auto simp add: takeWhile_neq_in)
    finally show ?thesis .
  qed
qed

lemma rkey_of_trailing: "rkey_of u = rev (takeWhile (\<lambda>c. c \<noteq> CHR ''/'') (rev u))"
  by (simp add: rkey_of_def split_js_def last_split_from_single takeWhile_neq_all)

lemma slice_drop: "slice xs i (i + n) @ drop (i + n) xs = drop i xs"
proof -
  have "take n (drop i xs) @ drop n (drop i xs) = drop i xs"
    by (rule append_take_drop_id)
  then show ?thesis
    by (simp add: slice_def add.commute)
qed

lemma ceil_step_gen:
  fixes b m :: nat
  assumes "0 < b" and "0 < m"
  shows "Suc ((m - b + (b - 1)) div b) = (m + (b - 1)) div b"
proof (cases "b \<le> m")
  case True
  then have "m + (b - 1) = (m - b + (b - 1)) + b"
    by simp
  then have "(m + (b - 1)) div b = (m - b + (b - 1)) div b + 1"
    using assms(1) by (metis div_add_self2 less_numeral_extra(3))
  then show ?thesis by (simp only: Suc_eq_plus1)
next
  case False
  then have z: "m - b = 0" by simp
  have lo: "b \<le> m + (b - 1)" using assms by simp
  have hi: "m + (b - 1) - b < b" using assms False by simp
  have "(m + (b - 1)) div b = (m + (b - 1) - b) div b + 1"
    using lo assms(1) by (simp add: le_div_geq)
  also have "\<dots> = 1" using hi by simp
  finally have one: "(m + (b - 1)) div b = 1" .
  have "(m - b + (b - 1)) div b = 0"
    using z assms(1) by simp
  with one show ?thesis by (simp only:)
qed

lemma ceil_step:
  "i < n \<Longrightarrow> Suc ((n - (i + 200) + 199) div 200) = (n - i + 199) div (200 :: nat)"
proof -
  assume "i < n"
  then have "0 < n - i" by simp
  from ceil_step_gen [of 200 "n - i", OF _ this]
  have "Suc ((n - i - 200 + 199) div 200) = (n - i + 199) div 200"
    by simp
  moreover have "n - (i + 200) = n - i - 200"
    by simp
  ultimately show ?thesis by (simp only:)
qed

lemma post_batches_all_return:
  "\<forall>c. post c = None \<Longrightarrow>
   snd (post_batches post writes i log) = None \<and>
   concat (fst (post_batches post writes i log)) = concat log @ drop i writes \<and>
   length (fst (post_batches post writes i log)) = length log + (length writes - i + 199) div 200"
proof (induction post writes i log rule: post_batches.induct)
  case (1 post writes i log)
  show ?case
  proof (cases "i < length writes")
    case False
    then show ?thesis by (subst (1 2 3) post_batches.simps) simp
  next
    case True
    let ?chunk = "slice writes i (i + BATCHSIZE)"
    have none: "post ?chunk = None"
      using "1.prems" by simp
    have step: "post_batches post writes i log
                  = post_batches post writes (i + BATCHSIZE) (log @ [?chunk])"
      using True none by (subst post_batches.simps) (simp add: Let_def)
    have IH: "snd (post_batches post writes (i + BATCHSIZE) (log @ [?chunk])) = None \<and>
        concat (fst (post_batches post writes (i + BATCHSIZE) (log @ [?chunk])))
          = concat (log @ [?chunk]) @ drop (i + BATCHSIZE) writes \<and>
        length (fst (post_batches post writes (i + BATCHSIZE) (log @ [?chunk])))
          = length (log @ [?chunk]) + (length writes - (i + BATCHSIZE) + 199) div 200"
      by (rule "1.IH" [OF True refl none "1.prems"])
    have cnt: "Suc ((length writes - (i + BATCHSIZE) + 199) div 200)
                 = (length writes - i + 199) div 200"
      unfolding BATCHSIZE_def by (rule ceil_step [OF True])
    have cat: "concat (log @ [?chunk]) @ drop (i + BATCHSIZE) writes = concat log @ drop i writes"
      using slice_drop [of writes i BATCHSIZE] by simp
    have len: "length (log @ [?chunk]) + (length writes - (i + BATCHSIZE) + 199) div 200
                 = length log + Suc ((length writes - (i + BATCHSIZE) + 199) div 200)"
      by simp
    show ?thesis
      unfolding step using IH unfolding cat len cnt .
  qed
qed

lemma post_batches_chunks:
  "\<forall>c \<in> set log. c \<noteq> [] \<and> length c \<le> 200 \<Longrightarrow>
   \<forall>c \<in> set (fst (post_batches post writes i log)). c \<noteq> [] \<and> length c \<le> 200"
proof (induction post writes i log rule: post_batches.induct)
  case (1 post writes i log)
  show ?case
  proof (cases "i < length writes")
    case False
    then show ?thesis using "1.prems" by (subst post_batches.simps) simp
  next
    case True
    let ?chunk = "slice writes i (i + BATCHSIZE)"
    have chunk: "?chunk \<noteq> [] \<and> length ?chunk \<le> 200"
      using True by (simp add: slice_def BATCHSIZE_def)
    show ?thesis
    proof (cases "post ?chunk")
      case (Some ex)
      then have "fst (post_batches post writes i log) = log @ [?chunk]"
        using True by (subst post_batches.simps) (simp add: Let_def)
      then show ?thesis using "1.prems" chunk by simp
    next
      case None
      then have step: "post_batches post writes i log
                  = post_batches post writes (i + BATCHSIZE) (log @ [?chunk])"
        using True by (subst post_batches.simps) (simp add: Let_def)
      have "\<forall>c \<in> set (log @ [?chunk]). c \<noteq> [] \<and> length c \<le> 200"
        using "1.prems" chunk by simp
      from "1.IH" [OF True refl None this] show ?thesis
        unfolding step .
    qed
  qed
qed

text \<open>Every call but the last one in the log has returned: a call is issued only after
  the call before it has returned.\<close>

lemma post_batches_sequential:
  "\<forall>k. Suc k < length log \<longrightarrow> post (log ! k) = None \<Longrightarrow>
   (log \<noteq> [] \<longrightarrow> post (last log) = None) \<Longrightarrow>
   \<forall>k. Suc k < length (fst (post_batches post writes i log)) \<longrightarrow>
         post (fst (post_batches post writes i log) ! k) = None"
proof (induction post writes i log rule: post_batches.induct)
  case (1 post writes i log)
  show ?case
  proof (cases "i < length writes")
    case False
    then show ?thesis using "1.prems" by (subst (1 2) post_batches.simps) simp
  next
    case True
    let ?chunk = "slice writes i (i + BATCHSIZE)"
    have before: "post ((log @ [?chunk]) ! k) = None" if "Suc k < length (log @ [?chunk])" for k
    proof (cases "Suc k < length log")
      case True
      with "1.prems"(1) show ?thesis by (simp add: nth_append)
    next
      case False
      with that have k: "k = length log - 1" and ne: "log \<noteq> []" by auto
      then have "(log @ [?chunk]) ! k = last log"
        by (simp add: nth_append last_conv_nth)
      with "1.prems"(2) ne show ?thesis by simp
    qed
    show ?thesis
    proof (cases "post ?chunk")
      case (Some ex)
      then have "fst (post_batches post writes i log) = log @ [?chunk]"
        using True by (subst post_batches.simps) (simp add: Let_def)
      then show ?thesis using before by simp
    next
      case None
      then have step: "post_batches post writes i log
                  = post_batches post writes (i + BATCHSIZE) (log @ [?chunk])"
        using True by (subst post_batches.simps) (simp add: Let_def)
      have a: "\<forall>k. Suc k < length (log @ [?chunk]) \<longrightarrow> post ((log @ [?chunk]) ! k) = None"
        using before by blast
      have b: "log @ [?chunk] \<noteq> [] \<longrightarrow> post (last (log @ [?chunk])) = None"
        using None by simp
      from "1.IH" [OF True refl None a b] show ?thesis
        unfolding step .
    qed
  qed
qed

lemma post_batches_done:
  "\<not> i < length writes \<Longrightarrow> post_batches post writes i log = (log, None)"
  by (subst post_batches.simps) simp

lemma post_batches_nth_done:
  assumes res: "post_batches post writes i log = (log, None)"
  shows "take (length log) (fst (post_batches post writes i log)) = log \<and>
   (\<forall>k. length log \<le> k \<and> k < length (fst (post_batches post writes i log)) \<longrightarrow>
        fst (post_batches post writes i log) ! k
          = take BATCHSIZE (drop (i + BATCHSIZE * (k - length log)) writes))"
proof -
  have "False" if "length log \<le> k \<and> k < length log" for k
    using that by linarith
  then show ?thesis
    unfolding res by simp blast
qed

lemma post_batches_nth:
  "take (length log) (fst (post_batches post writes i log)) = log \<and>
   (\<forall>k. length log \<le> k \<and> k < length (fst (post_batches post writes i log)) \<longrightarrow>
        fst (post_batches post writes i log) ! k
          = take BATCHSIZE (drop (i + BATCHSIZE * (k - length log)) writes))"
proof (induction post writes i log rule: post_batches.induct)
  case (1 post writes i log)
  show ?case
  proof (cases "i < length writes")
    case False
    then have res: "post_batches post writes i log = (log, None)"
      by (rule post_batches_done)
    then show ?thesis
      by (rule post_batches_nth_done)
  next
    case True
    let ?chunk = "slice writes i (i + BATCHSIZE)"
    have chunk: "?chunk = take BATCHSIZE (drop i writes)"
      by (simp add: slice_def)
    show ?thesis
    proof (cases "post ?chunk")
      case (Some ex)
      then have res: "fst (post_batches post writes i log) = log @ [?chunk]"
        using True by (subst post_batches.simps) (simp add: Let_def)
      have "(log @ [?chunk]) ! k = take BATCHSIZE (drop (i + BATCHSIZE * (k - length log)) writes)"
        if "length log \<le> k \<and> k < length (log @ [?chunk])" for k
      proof -
        from that have "k = length log" by simp
        then show ?thesis using chunk by simp
      qed
      then show ?thesis
        unfolding res by simp
    next
      case None
      then have step: "post_batches post writes i log
                  = post_batches post writes (i + BATCHSIZE) (log @ [?chunk])"
        using True by (subst post_batches.simps) (simp add: Let_def)
      let ?res = "fst (post_batches post writes (i + BATCHSIZE) (log @ [?chunk]))"
      have IH: "take (length (log @ [?chunk])) ?res = log @ [?chunk] \<and>
          (\<forall>k. length (log @ [?chunk]) \<le> k \<and> k < length ?res \<longrightarrow>
             ?res ! k = take BATCHSIZE (drop (i + BATCHSIZE + BATCHSIZE * (k - length (log @ [?chunk]))) writes))"
        by (rule "1.IH" [OF True refl None])
      then have pre: "take (Suc (length log)) ?res = log @ [?chunk]"
        by simp
      have len: "Suc (length log) \<le> length ?res"
      proof (rule ccontr)
        assume "\<not> Suc (length log) \<le> length ?res"
        then have "length (take (Suc (length log)) ?res) < Suc (length log)" by simp
        with pre show False by simp
      qed
      have a: "take (length log) ?res = log"
      proof -
        have "take (length log) ?res = take (length log) (take (Suc (length log)) ?res)"
          by (simp add: min_def)
        then show ?thesis unfolding pre by simp
      qed
      have b: "?res ! k = take BATCHSIZE (drop (i + BATCHSIZE * (k - length log)) writes)"
        if "length log \<le> k" and "k < length ?res" for k
      proof (cases "k = length log")
        case True
        have "?res ! k = take (Suc (length log)) ?res ! k"
          using True by simp
        then show ?thesis
          unfolding pre using True chunk by (simp add: nth_append)
      next
        case False
        with that have k: "length (log @ [?chunk]) \<le> k" by simp
        have idx: "i + BATCHSIZE + BATCHSIZE * (k - length (log @ [?chunk]))
                 = i + BATCHSIZE * (k - length log)"
        proof -
          from k obtain d where d: "k = Suc (length log) + d"
            by (auto simp add: le_iff_add)
          show ?thesis unfolding d by simp
        qed
        from IH have "length (log @ [?chunk]) \<le> k \<and> k < length ?res \<longrightarrow>
            ?res ! k = take BATCHSIZE (drop (i + BATCHSIZE + BATCHSIZE * (k - length (log @ [?chunk]))) writes)"
          by (elim conjE allE [where x = k])
        with k that(2)
        have "?res ! k = take BATCHSIZE (drop (i + BATCHSIZE + BATCHSIZE * (k - length (log @ [?chunk]))) writes)"
          by (elim impE conjI) simp_all
        then show ?thesis
          unfolding idx .
      qed
      show ?thesis
        unfolding step
      proof (intro conjI allI impI)
        show "take (length log) ?res = log" by (rule a)
      next
        fix k
        assume "length log \<le> k \<and> k < length ?res"
        then show "?res ! k = take BATCHSIZE (drop (i + BATCHSIZE * (k - length log)) writes)"
          using b [of k] by simp
      qed
    qed
  qed
qed

lemma removeItems_eq:
  fixes post st
  defines "coll \<equiv> (if currentMode st = BLOCKS then ''app.bsky.graph.block'' else ''app.bsky.graph.follow'')"
  defines "writes \<equiv> map (delete_op coll) (filter toDelete (currentRecords st))"
  shows "fst (removeItems post st) = fst (post_batches post writes 0 [])"
    and "snd (post_batches post writes 0 []) = None \<Longrightarrow>
         snd (removeItems post st)
           = Inr (if currentMode st = BLOCKS
                  then st\<lparr>blockRecords := [], globalNotice := CleanedUpBlocks (length writes)\<rparr>
                  else st\<lparr>followRecords := [], globalNotice := Unfollowed (length writes)\<rparr>)"
proof -
  obtain log thrown where pb: "post_batches post writes 0 [] = (log, thrown)"
    by (cases "post_batches post writes 0 []")
  have unfolded: "removeItems post st
          = (case thrown of
               Some ex \<Rightarrow> (log, Inl ex)
             | None \<Rightarrow>
                 (log, Inr (if currentMode st = BLOCKS
                            then st\<lparr>blockRecords := [], globalNotice := CleanedUpBlocks (length writes)\<rparr>
                            else st\<lparr>followRecords := [], globalNotice := Unfollowed (length writes)\<rparr>)))"
    using pb unfolding removeItems_def Let_def writes_def coll_def by simp
  show "fst (removeItems post st) = fst (post_batches post writes 0 [])"
    unfolding unfolded pb by (cases thrown) simp_all
  show "snd (removeItems post st)
           = Inr (if currentMode st = BLOCKS
                  then st\<lparr>blockRecords := [], globalNotice := CleanedUpBlocks (length writes)\<rparr>
                  else st\<lparr>followRecords := [], globalNotice := Unfollowed (length writes)\<rparr>)"
    if "snd (post_batches post writes 0 []) = None"
    using that unfolding unfolded pb by simp
qed

text \<open>
  C7: with \<open>K\<close> records marked for deletion, the calls \<^verbatim>\<open>removeItems\<close> issues are,
  in order, the chunks of 200 of the list of delete operations (one operation per marked
  record, in the order of the records, keyed by the text after the last \<^verbatim>\<open>/\<close> of the
  record's locator): call \<open>k\<close> carries the operations from position \<open>200 * k\<close> on, at most
  200 and at least one. A call is issued only when every call before it has returned.
  When every call returns, there are exactly \<open>\<lceil>K / 200\<rceil>\<close> calls (none when \<open>K = 0\<close>), their
  operations together are the \<open>K\<close> operations, and the record list of the mode is emptied.
\<close>

theorem C7_batched_delete:
  fixes post :: "DeleteOp list \<Rightarrow> js_exception option" and st :: AppState
  defines "coll \<equiv> (if currentMode st = BLOCKS then ''app.bsky.graph.block'' else ''app.bsky.graph.follow'')"
  defines "writes \<equiv>
             map (\<lambda>r. \<lparr>op_type = ''com.atproto.repo.applyWrites#delete'', collection = coll,
                        rkey = rev (takeWhile (\<lambda>c. c \<noteq> CHR ''/'') (rev (uri r)))\<rparr>)
               (filter toDelete (currentRecords st))"
      and "K \<equiv> length (filter toDelete (currentRecords st))"
      and "calls \<equiv> fst (removeItems post st)"
  shows "(\<forall>k. k < length calls \<longrightarrow>
             calls ! k = take 200 (drop (200 * k) writes) \<and> calls ! k \<noteq> [] \<and> length (calls ! k) \<le> 200) \<and>
         (\<forall>k. Suc k < length calls \<longrightarrow> post (calls ! k) = None) \<and>
         ((\<forall>c. post c = None) \<longrightarrow>
            length calls = (K + 199) div 200 \<and>
            concat calls = writes \<and>
            sum_list (map length calls) = K \<and>
            snd (removeItems post st)
              = Inr (if currentMode st = BLOCKS
                     then st\<lparr>blockRecords := [], globalNotice := CleanedUpBlocks K\<rparr>
                     else st\<lparr>followRecords := [], globalNotice := Unfollowed K\<rparr>))"
proof -
  have writes: "writes = map (delete_op coll) (filter toDelete (currentRecords st))"
    unfolding writes_def by (simp add: delete_op_def rkey_of_trailing)
  have K: "length writes = K"
    unfolding writes K_def by simp
  have calls: "calls = fst (post_batches post writes 0 [])"
    unfolding calls_def writes coll_def by (rule removeItems_eq(1))
  have nth: "calls ! k = take 200 (drop (200 * k) writes)" if "k < length calls" for k
    using post_batches_nth [of "[]" post writes 0] that unfolding calls by (simp add: BATCHSIZE_def)
  have bounds: "calls ! k \<noteq> [] \<and> length (calls ! k) \<le> 200" if "k < length calls" for k
    using post_batches_chunks [of "[]" post writes 0] that unfolding calls by simp
  have seq: "post (calls ! k) = None" if "Suc k < length calls" for k
    using post_batches_sequential [of "[]" post writes 0] that unfolding calls by simp
  have all: "length calls = (K + 199) div 200 \<and> concat calls = writes \<and>
            sum_list (map length calls) = K \<and>
            snd (removeItems post st)
              = Inr (if currentMode st = BLOCKS
                     then st\<lparr>blockRecords := [], globalNotice := CleanedUpBlocks K\<rparr>
                     else st\<lparr>followRecords := [], globalNotice := Unfollowed K\<rparr>)"
    if ret: "\<forall>c. post c = None"
  proof -
    from post_batches_all_return [OF ret, of writes 0 "[]"]
    have none: "snd (post_batches post writes 0 []) = None"
      and cat: "concat calls = writes"
      and len: "length calls = (K + 199) div 200"
      unfolding calls K by simp_all
    have "sum_list (map length calls) = length (concat calls)"
      by (simp add: length_concat)
    then have total: "sum_list (map length calls) = K"
      unfolding cat K .
    have "snd (removeItems post st)
              = Inr (if currentMode st = BLOCKS
                     then st\<lparr>blockRecords := [], globalNotice := CleanedUpBlocks (length writes)\<rparr>
                     else st\<lparr>followRecords := [], globalNotice := Unfollowed (length writes)\<rparr>)"
      using none unfolding writes coll_def by (rule removeItems_eq(2))
    then show ?thesis
      unfolding K using len cat total by simp
  qed
  show ?thesis
    apply (intro conjI allI impI)
    subgoal for k by (rule nth)
    subgoal for k using bounds [of k] by simp
    subgoal for k using bounds [of k] by simp
    subgoal for k by (rule seq)
    subgoal using all by simp
    subgoal using all by simp
    subgoal using all by simp
    subgoal using all by simp
    done
qed

theorem C7_batched_delete_witness:
  "length (fst (removeItems (\<lambda>c. None)
      \<lparr>followRecords = replicate 450
         \<lparr>did = ''did:plc:a'', handle = ''a.test'', uri = ''at://did:plc:me/app.bsky.graph.follow/3k'',
          status = DELETED, status_label = ''Deleted'', toDelete = True, visible = True\<rparr>,
       blockRecords = [], followToggleStates = followToggleStates0,
       blockToggleStates = blockToggleStates0, currentMode = FOLLOWS, globalNotice = NoNotice,
       progress = 0, itemCount = 0\<rparr>)) = 3 \<and>
   concat (fst (removeItems (\<lambda>c. None)
      \<lparr>followRecords = replicate 450
         \<lparr>did = ''did:plc:a'', handle = ''a.test'', uri = ''at://did:plc:me/app.bsky.graph.follow/3k'',
          status = DELETED, status_label = ''Deleted'', toDelete = True, visible = True\<rparr>,
       blockRecords = [], followToggleStates = followToggleStates0,
       blockToggleStates = blockToggleStates0, currentMode = FOLLOWS, globalNotice = NoNotice,
       progress = 0, itemCount = 0\<rparr>))
     = replicate 450 \<lparr>op_type = ''com.atproto.repo.applyWrites#delete'',
                       collection = ''app.bsky.graph.follow'', rkey = ''3k''\<rparr>"
proof -
  let ?r = "\<lparr>did = ''did:plc:a'', handle = ''a.test'', uri = ''at://did:plc:me/app.bsky.graph.follow/3k'',
          status = DELETED, status_label = ''Deleted'', toDelete = True, visible = True\<rparr>"
  let ?st = "\<lparr>followRecords = replicate 450 ?r,
       blockRecords = [], followToggleStates = followToggleStates0,
       blockToggleStates = blockToggleStates0, currentMode = FOLLOWS, globalNotice = NoNotice,
       progress = 0, itemCount = 0\<rparr>"
  let ?post = "\<lambda>c :: DeleteOp list. None :: js_exception option"
  have cur: "filter toDelete (currentRecords ?st) = replicate 450 ?r"
    by (simp add: currentRecords_def)
  have all: "\<forall>c. ?post c = None"
    by simp
  from C7_batched_delete [of ?post ?st]
  have "length (fst (removeItems ?post ?st)) = (length (filter toDelete (currentRecords ?st)) + 199) div 200 \<and>
        concat (fst (removeItems ?post ?st))
          = map (\<lambda>r. \<lparr>op_type = ''com.atproto.repo.applyWrites#delete'',
                        collection = (if currentMode ?st = BLOCKS then ''app.bsky.graph.block''
                                      else ''app.bsky.graph.follow''),
                        rkey = rev (takeWhile (\<lambda>c. c \<noteq> CHR ''/'') (rev (uri r)))\<rparr>)
              (filter toDelete (currentRecords ?st))"
    using all by blast
  then show ?thesis
    unfolding cur by simp
qed

section \<open>C6: pagination\<close>

lemma paged_server_first:
  "paged_server xs P None
     = \<lparr>items = take P xs,
        cursor = (if P < length xs then Some (replicate P (CHR ''c'')) else None)\<rparr>"
  by (simp add: paged_server_def)

lemma paged_server_next:
  "paged_server xs P (Some (replicate off (CHR ''c'')))
     = \<lparr>items = take P (drop off xs),
        cursor = (if off + P < length xs then Some (replicate (off + P) (CHR ''c'')) else None)\<rparr>"
  by (simp add: paged_server_def)

lemma take_drop_next: "take P (drop off xs) @ drop (off + P) xs = drop off xs"
proof -
  have "take P (drop off xs) @ drop P (drop off xs) = drop off xs"
    by (rule append_take_drop_id)
  then show ?thesis by (simp add: add.commute)
qed

lemma pages_left_step:
  fixes P :: nat
  assumes "0 < P" and "off + P < n"
  shows "Suc ((n - (off + P) - 1) div P) = (n - off - 1) div P"
proof -
  have "P \<le> n - off - 1" using assms by simp
  then have "(n - off - 1) div P = Suc ((n - off - 1 - P) div P)"
    using assms(1) by (simp add: le_div_geq)
  moreover have "n - off - 1 - P = n - (off + P) - 1"
    by simp
  ultimately show ?thesis by (simp only:)
qed

lemma pages_left_last:
  fixes P :: nat
  assumes "0 < P" and "\<not> off + P < n"
  shows "(n - off - 1) div P = 0"
proof -
  have "n - off - 1 < P" using assms by simp
  then show ?thesis by (rule div_less)
qed

lemma blocks_loop_paged:
  assumes P: "0 < P"
  shows "\<exists>more. blocks_loop (\<lambda>c. Inr (paged_server xs P c))
                 \<lparr>items = its,
                  cursor = (if off + P < length xs then Some (replicate (off + P) (CHR ''c'')) else None)\<rparr>
                 acc reqs
               = Some (Inr (acc @ drop (off + P) xs), reqs @ more) \<and>
               length more = (length xs - off - 1) div P"
proof (induction "length xs - off" arbitrary: off its acc reqs rule: less_induct)
  case less
  show ?case
  proof (cases "off + P < length xs")
    case False
    then have "blocks_loop (\<lambda>c. Inr (paged_server xs P c))
                 \<lparr>items = its,
                  cursor = (if off + P < length xs then Some (replicate (off + P) (CHR ''c'')) else None)\<rparr>
                 acc reqs = Some (Inr acc, reqs)"
      by (subst blocks_loop.simps) simp
    moreover have "drop (off + P) xs = []" using False by simp
    moreover have "(length xs - off - 1) div P = 0" using P False by (rule pages_left_last)
    ultimately show ?thesis by simp
  next
    case True
    let ?c = "Some (replicate (off + P) (CHR ''c''))"
    let ?next = "\<lparr>items = take P (drop (off + P) xs),
                  cursor = (if off + P + P < length xs then Some (replicate (off + P + P) (CHR ''c'')) else None)\<rparr>"
    have step: "blocks_loop (\<lambda>c. Inr (paged_server xs P c))
                 \<lparr>items = its,
                  cursor = (if off + P < length xs then Some (replicate (off + P) (CHR ''c'')) else None)\<rparr>
                 acc reqs
             = blocks_loop (\<lambda>c. Inr (paged_server xs P c)) ?next
                 (acc @ take P (drop (off + P) xs)) (reqs @ [?c])"
      using True P by (subst blocks_loop.simps) (simp add: paged_server_next)
    have smaller: "length xs - (off + P) < length xs - off"
      using True P by simp
    from less [OF smaller, of "take P (drop (off + P) xs)" "acc @ take P (drop (off + P) xs)" "reqs @ [?c]"]
    obtain more where
      run: "blocks_loop (\<lambda>c. Inr (paged_server xs P c)) ?next
              (acc @ take P (drop (off + P) xs)) (reqs @ [?c])
            = Some (Inr ((acc @ take P (drop (off + P) xs)) @ drop (off + P + P) xs), (reqs @ [?c]) @ more)"
      and len: "length more = (length xs - (off + P) - 1) div P"
      by blast
    have items: "(acc @ take P (drop (off + P) xs)) @ drop (off + P + P) xs = acc @ drop (off + P) xs"
      using take_drop_next [of P "off + P" xs] by simp
    have count: "length (?c # more) = (length xs - off - 1) div P"
      using len pages_left_step [OF P True] by simp
    show ?thesis
      unfolding step run items using count by (intro exI [where x = "?c # more"]) simp
  qed
qed

lemma follows_loop_paged:
  assumes P: "0 < P"
  shows "\<exists>more. follows_loop P (\<lambda>c. Inr (paged_server xs P c))
                 \<lparr>items = take P (drop off xs),
                  cursor = (if off + P < length xs then Some (replicate (off + P) (CHR ''c'')) else None)\<rparr>
                 acc reqs
               = Some (Inr (acc @ drop (off + P) xs), reqs @ more) \<and>
               length more = (length xs - off - 1) div P"
proof (induction "length xs - off" arbitrary: off acc reqs rule: less_induct)
  case less
  show ?case
  proof (cases "off + P < length xs")
    case False
    then have "follows_loop P (\<lambda>c. Inr (paged_server xs P c))
                 \<lparr>items = take P (drop off xs),
                  cursor = (if off + P < length xs then Some (replicate (off + P) (CHR ''c'')) else None)\<rparr>
                 acc reqs = Some (Inr acc, reqs)"
      by (subst follows_loop.simps) simp
    moreover have "drop (off + P) xs = []" using False by simp
    moreover have "(length xs - off - 1) div P = 0" using P False by (rule pages_left_last)
    ultimately show ?thesis by simp
  next
    case True
    let ?c = "Some (replicate (off + P) (CHR ''c''))"
    let ?next = "\<lparr>items = take P (drop (off + P) xs),
                  cursor = (if off + P + P < length xs then Some (replicate (off + P + P) (CHR ''c'')) else None)\<rparr>"
    have full: "P \<le> length (take P (drop off xs))"
      using True by simp
    have step: "follows_loop P (\<lambda>c. Inr (paged_server xs P c))
                 \<lparr>items = take P (drop off xs),
                  cursor = (if off + P < length xs then Some (replicate (off + P) (CHR ''c'')) else None)\<rparr>
                 acc reqs
             = follows_loop P (\<lambda>c. Inr (paged_server xs P c)) ?next
                 (acc @ take P (drop (off + P) xs)) (reqs @ [?c])"
      using True P full by (subst follows_loop.simps) (simp add: paged_server_next)
    have smaller: "length xs - (off + P) < length xs - off"
      using True P by simp
    from less [OF smaller, of "acc @ take P (drop (off + P) xs)" "reqs @ [?c]"]
    obtain more where
      run: "follows_loop P (\<lambda>c. Inr (paged_server xs P c)) ?next
              (acc @ take P (drop (off + P) xs)) (reqs @ [?c])
            = Some (Inr ((acc @ take P (drop (off + P) xs)) @ drop (off + P + P) xs), (reqs @ [?c]) @ more)"
      and len: "length more = (length xs - (off + P) - 1) div P"
      by blast
    have items: "(acc @ take P (drop (off + P) xs)) @ drop (off + P + P) xs = acc @ drop (off + P) xs"
      using take_drop_next [of P "off + P" xs] by simp
    have count: "length (?c # more) = (length xs - off - 1) div P"
      using len pages_left_step [OF P True] by simp
    show ?thesis
      unfolding step run items using count by (intro exI [where x = "?c # more"]) simp
  qed
qed

lemma ceil_pages:
  fixes P n :: nat
  assumes "0 < P"
  shows "Suc ((n - 1) div P) = (if n = 0 then 1 else (n + P - 1) div P)"
proof (cases "n = 0")
  case True
  then show ?thesis by simp
next
  case False
  then have "n + P - 1 = (n - 1) + P" by simp
  then have "(n + P - 1) div P = (n - 1) div P + 1"
    using assms by (metis div_add_self2 less_numeral_extra(3))
  with False show ?thesis by (simp only: Suc_eq_plus1 if_False)
qed

lemma getBlocks_all_paged:
  assumes P: "0 < P"
  shows "\<exists>reqs. getBlocks_all (\<lambda>c. Inr (paged_server xs P c)) = Some (Inr xs, reqs) \<and>
               length reqs = (if length xs = 0 then 1 else (length xs + P - 1) div P)"
proof -
  from blocks_loop_paged [OF P, of xs "take P xs" 0 "take P xs" "[None]", unfolded add_0 diff_zero drop_0]
  obtain more where
    run: "blocks_loop (\<lambda>c. Inr (paged_server xs P c))
            \<lparr>items = take P xs,
             cursor = (if P < length xs then Some (replicate P (CHR ''c'')) else None)\<rparr>
            (take P xs) [None]
          = Some (Inr (take P xs @ drop P xs), [None] @ more)"
    and len: "length more = (length xs - 1) div P"
    by blast
  have "getBlocks_all (\<lambda>c. Inr (paged_server xs P c)) = Some (Inr xs, None # more)"
    unfolding getBlocks_all_def using run by (simp add: paged_server_first)
  moreover have "length (None # more) = (if length xs = 0 then 1 else (length xs + P - 1) div P)"
    using len ceil_pages [OF P, of "length xs"] by simp
  ultimately show ?thesis by blast
qed

lemma listFollows_all_paged:
  assumes P: "0 < P"
  shows "\<exists>reqs. listFollows_all P (\<lambda>c. Inr (paged_server xs P c)) = Some (Inr xs, reqs) \<and>
               length reqs = (if length xs = 0 then 1 else (length xs + P - 1) div P)"
proof -
  from follows_loop_paged [OF P, of xs 0 "take P xs" "[None]", unfolded add_0 diff_zero drop_0]
  obtain more where
    run: "follows_loop P (\<lambda>c. Inr (paged_server xs P c))
            \<lparr>items = take P xs,
             cursor = (if P < length xs then Some (replicate P (CHR ''c'')) else None)\<rparr>
            (take P xs) [None]
          = Some (Inr (take P xs @ drop P xs), [None] @ more)"
    and len: "length more = (length xs - 1) div P"
    by blast
  have "listFollows_all P (\<lambda>c. Inr (paged_server xs P c)) = Some (Inr xs, None # more)"
    unfolding listFollows_all_def using run by (simp add: paged_server_first)
  moreover have "length (None # more) = (if length xs = 0 then 1 else (length xs + P - 1) div P)"
    using len ceil_pages [OF P, of "length xs"] by simp
  ultimately show ?thesis by blast
qed

text \<open>
  C6: against a listing endpoint that exposes \<open>N\<close> items, serves them \<open>P\<close> at a time and
  omits the cursor on the last page, both page loops terminate, return the \<open>N\<close> items in
  the order of the server, and make exactly \<open>\<lceil>N / P\<rceil>\<close> requests, one request when
  \<open>N = 0\<close>: the loop that stops when no cursor is returned (\<^verbatim>\<open>fetchBlocks\<close>) and the
  loop that stops when no cursor is returned or the page is shorter than the limit
  (\<^verbatim>\<open>fetchFollows\<close>); in particular the functions of both versions, with their
  limits of 50 and 100.
\<close>

theorem C6_pagination:
  fixes xs :: "'a list" and bs :: "BlockedProfile list" and fs :: "RepoRecord list"
  assumes P: "0 < P"
  shows "(\<exists>reqs. getBlocks_all (\<lambda>c. Inr (paged_server xs P c)) = Some (Inr xs, reqs) \<and>
                 length reqs = (if length xs = 0 then 1 else (length xs + P - 1) div P)) \<and>
         (\<exists>reqs. listFollows_all P (\<lambda>c. Inr (paged_server xs P c)) = Some (Inr xs, reqs) \<and>
                 length reqs = (if length xs = 0 then 1 else (length xs + P - 1) div P)) \<and>
         (\<exists>reqs. activeBlocks_app (\<lambda>lim c. Ok (paged_server bs lim c)) = Some (Inr bs, reqs) \<and>
                 length reqs = (if length bs = 0 then 1 else (length bs + 50 - 1) div 50)) \<and>
         (\<exists>reqs. activeBlocks_p0 (\<lambda>lim c. Resolved (paged_server bs lim c)) = Some (Inr bs, reqs) \<and>
                 length reqs = (if length bs = 0 then 1 else (length bs + 50 - 1) div 50)) \<and>
         (\<exists>reqs. fetchFollows_app (\<lambda>coll lim c. Ok (paged_server fs lim c)) = Some (Inr fs, reqs) \<and>
                 length reqs = (if length fs = 0 then 1 else (length fs + 100 - 1) div 100)) \<and>
         (\<exists>reqs. fetchFollows_p0 (\<lambda>coll lim c. Resolved (paged_server fs lim c)) = Some (Inr fs, reqs) \<and>
                 length reqs = (if length fs = 0 then 1 else (length fs + 100 - 1) div 100))"
proof (intro conjI)
  show "\<exists>reqs. getBlocks_all (\<lambda>c. Inr (paged_server xs P c)) = Some (Inr xs, reqs) \<and>
                 length reqs = (if length xs = 0 then 1 else (length xs + P - 1) div P)"
    by (rule getBlocks_all_paged [OF P])
  show "\<exists>reqs. listFollows_all P (\<lambda>c. Inr (paged_server xs P c)) = Some (Inr xs, reqs) \<and>
                 length reqs = (if length xs = 0 then 1 else (length xs + P - 1) div P)"
    by (rule listFollows_all_paged [OF P])
  have fifty: "(0 :: nat) < 50" and hundred: "(0 :: nat) < 100"
    by simp_all
  show "\<exists>reqs. activeBlocks_app (\<lambda>lim c. Ok (paged_server bs lim c)) = Some (Inr bs, reqs) \<and>
                 length reqs = (if length bs = 0 then 1 else (length bs + 50 - 1) div 50)"
    unfolding activeBlocks_app_def page_or_throw_app_def client_result.case
    by (rule getBlocks_all_paged [OF fifty])
  show "\<exists>reqs. activeBlocks_p0 (\<lambda>lim c. Resolved (paged_server bs lim c)) = Some (Inr bs, reqs) \<and>
                 length reqs = (if length bs = 0 then 1 else (length bs + 50 - 1) div 50)"
    unfolding activeBlocks_p0_def page_or_throw_p0_def xrpc_result.case
    by (rule getBlocks_all_paged [OF fifty])
  show "\<exists>reqs. fetchFollows_app (\<lambda>coll lim c. Ok (paged_server fs lim c)) = Some (Inr fs, reqs) \<and>
                 length reqs = (if length fs = 0 then 1 else (length fs + 100 - 1) div 100)"
    unfolding fetchFollows_app_def page_or_throw_app_def client_result.case
    by (rule listFollows_all_paged [OF hundred])
  show "\<exists>reqs. fetchFollows_p0 (\<lambda>coll lim c. Resolved (paged_server fs lim c)) = Some (Inr fs, reqs) \<and>
                 length reqs = (if length fs = 0 then 1 else (length fs + 100 - 1) div 100)"
    unfolding fetchFollows_p0_def page_or_throw_p0_def xrpc_result.case
    by (rule listFollows_all_paged [OF hundred])
qed

theorem C6_pagination_witness:
  "(\<exists>reqs. getBlocks_all (\<lambda>c. Inr (paged_server [1, 2, 3, 4, 5 :: nat] 2 c))
             = Some (Inr [1, 2, 3, 4, 5], reqs) \<and> length reqs = 3) \<and>
   (\<exists>reqs. listFollows_all 2 (\<lambda>c. Inr (paged_server [1, 2, 3, 4 :: nat] 2 c))
             = Some (Inr [1, 2, 3, 4], reqs) \<and> length reqs = 2) \<and>
   (\<exists>reqs. fetchFollows_app (\<lambda>coll lim c. Ok (paged_server [] lim c)) = Some (Inr [], reqs) \<and>
           length reqs = 1)"
proof -
  have two: "(0 :: nat) < 2" by simp
  have n5: "(if length [1, 2, 3, 4, 5 :: nat] = 0 then 1
             else (length [1, 2, 3, 4, 5 :: nat] + 2 - 1) div 2) = 3"
    by simp
  have n4: "(if length [1, 2, 3, 4 :: nat] = 0 then 1
             else (length [1, 2, 3, 4 :: nat] + 2 - 1) div 2) = 2"
    by simp
  have n0: "(if length ([] :: RepoRecord list) = 0 then 1
             else (length ([] :: RepoRecord list) + 100 - 1) div 100) = (1 :: nat)"
    by simp
  have a: "\<exists>reqs. getBlocks_all (\<lambda>c. Inr (paged_server [1, 2, 3, 4, 5 :: nat] 2 c))
             = Some (Inr [1, 2, 3, 4, 5], reqs) \<and> length reqs = 3"
    using C6_pagination [OF two, of "[1, 2, 3, 4, 5 :: nat]", THEN conjunct1]
    unfolding n5 .
  have b: "\<exists>reqs. listFollows_all 2 (\<lambda>c. Inr (paged_server [1, 2, 3, 4 :: nat] 2 c))
             = Some (Inr [1, 2, 3, 4], reqs) \<and> length reqs = 2"
    using C6_pagination [OF two, of "[1, 2, 3, 4 :: nat]", THEN conjunct2, THEN conjunct1]
    unfolding n4 .
  have c: "\<exists>reqs. fetchFollows_app (\<lambda>coll lim c. Ok (paged_server [] lim c)) = Some (Inr [], reqs) \<and>
           length reqs = 1"
    using C6_pagination [OF two, of "[] :: nat list" _ "[]", THEN conjunct2, THEN conjunct2,
        THEN conjunct2, THEN conjunct2, THEN conjunct1]
    unfolding n0 .
  from a b c show ?thesis by (intro conjI)
qed

section \<open>C1: the stale block records\<close>

lemma foldl_push_block:
  "foldl push_block acc raw = acc @ map (\<lambda>r. \<lparr>b_did = rec_subject r, b_uri = rec_uri r\<rparr>) raw"
  by (induction raw arbitrary: acc) (simp_all add: push_block_def)

text \<open>
  A listing that returns visits a finite chain of pages; a second listing of the same
  endpoint, with another loop body, visits the same chain, provided it receives a page
  where the first did and ends where the first ended.
\<close>

lemma list_pages_same_pages:
  assumes got: "\<And>c p. f1 c = Got p \<Longrightarrow> f2 c = Got p"
      and stop: "\<And>c. f1 c = Stop \<Longrightarrow> f2 c = Stop"
      and run: "list_pages f1 push_block c acc = Some (Inr R)"
  shows "\<exists>raw. R = acc @ map (\<lambda>r. \<lparr>b_did = rec_subject r, b_uri = rec_uri r\<rparr>) raw \<and>
               (\<forall>s. list_pages f2 scan_step c s = Some (Inr (foldl scan_step s raw)))"
proof -
  let ?ref = "\<lambda>r. \<lparr>b_did = rec_subject r, b_uri = rec_uri r\<rparr>"
  let ?P = "\<lambda>f step c (acc :: BlockRef list) (y :: js_exception + BlockRef list).
       f = f1 \<longrightarrow> step = push_block \<longrightarrow>
       (\<forall>R. y = Inr R \<longrightarrow>
          (\<exists>raw. R = acc @ map ?ref raw \<and>
                 (\<forall>s'. list_pages f2 scan_step c s' = Some (Inr (foldl scan_step s' raw)))))"
  have "?P f1 push_block c acc (Inr R)"
  proof (rule list_pages.raw_induct [where P = ?P, OF _ run])
    fix lp :: "(string option \<Rightarrow> RepoRecord page_outcome) \<Rightarrow> (BlockRef list \<Rightarrow> RepoRecord \<Rightarrow> BlockRef list)
                \<Rightarrow> string option \<Rightarrow> BlockRef list \<Rightarrow> (js_exception + BlockRef list) option"
      and f step c acc y
    assume IH: "\<And>f step c acc y. lp f step c acc = Some y \<Longrightarrow> ?P f step c acc y"
      and body: "(case f c of
                    Got p \<Rightarrow>
                      let s' = foldl step acc (items p)
                      in if truthy_str (cursor p) then lp f step (cursor p) s' else Some (Inr s')
                  | Stop \<Rightarrow> Some (Inr acc)
                  | Raise ex \<Rightarrow> Some (Inl ex)) = Some y"
    show "?P f step c acc y"
    proof (intro impI allI)
      fix R
      assume f: "f = f1" and step: "step = push_block" and y: "y = Inr R"
      show "\<exists>raw. R = acc @ map ?ref raw \<and>
                  (\<forall>s'. list_pages f2 scan_step c s' = Some (Inr (foldl scan_step s' raw)))"
      proof (cases "f1 c")
        case (Raise ex)
        with body f y show ?thesis by simp
      next
        case Stop
        with body f y have "R = acc" by simp
        moreover have "list_pages f2 scan_step c s' = Some (Inr s')" for s'
          using stop [OF Stop] by (subst list_pages.simps) simp
        ultimately show ?thesis
          by (intro exI [where x = "[]"]) simp
      next
        case (Got p)
        let ?acc' = "acc @ map ?ref (items p)"
        have f2: "f2 c = Got p" by (rule got [OF Got])
        show ?thesis
        proof (cases "truthy_str (cursor p)")
          case False
          with body f step y Got have "R = ?acc'"
            by (simp add: foldl_push_block)
          moreover have "list_pages f2 scan_step c s' = Some (Inr (foldl scan_step s' (items p)))"
            for s'
            using f2 False by (subst list_pages.simps) simp
          ultimately show ?thesis
            by (intro exI [where x = "items p"]) simp
        next
          case True
          with body f step y Got have "lp f1 push_block (cursor p) ?acc' = Some (Inr R)"
            by (simp add: foldl_push_block)
          from IH [OF this] obtain raw where
            R: "R = ?acc' @ map ?ref raw"
            and rest: "\<And>s'. list_pages f2 scan_step (cursor p) s' = Some (Inr (foldl scan_step s' raw))"
            by blast
          have "list_pages f2 scan_step c s' = Some (Inr (foldl scan_step s' (items p @ raw)))"
            for s'
            using f2 True rest [of "foldl scan_step s' (items p)"]
            by (subst list_pages.simps) simp
          with R show ?thesis
            by (intro exI [where x = "items p @ raw"]) simp
        qed
      qed
    qed
  qed
  then show ?thesis by simp
qed

lemma foldl_scan_step:
  "set (map b_did (snd (foldl scan_step (S, uris) raw)))
     = set (map b_did uris) \<union> (S \<inter> set (map rec_subject raw))"
proof (induction raw arbitrary: S uris)
  case Nil
  then show ?case by simp
next
  case (Cons r raw)
  show ?case
  proof (cases "rec_subject r \<in> S")
    case True
    then have step: "foldl scan_step (S, uris) (r # raw)
                 = foldl scan_step (S - {rec_subject r},
                                    uris @ [\<lparr>b_did = rec_subject r, b_uri = rec_uri r\<rparr>]) raw"
      by (simp add: scan_step_def)
    show ?thesis
      unfolding step Cons.IH using True by auto
  next
    case False
    then have step: "foldl scan_step (S, uris) (r # raw) = foldl scan_step (S, uris) raw"
      by (simp add: scan_step_def)
    show ?thesis
      unfolding step Cons.IH using False by auto
  qed
qed

lemma stale_filter:
  assumes "activeDids = S \<inter> set (map rec_subject raw)"
  shows "filter (\<lambda>record. b_did record \<notin> activeDids)
           (map (\<lambda>r. \<lparr>b_did = rec_subject r, b_uri = rec_uri r\<rparr>) raw)
         = filter (\<lambda>record. b_did record \<notin> S)
           (map (\<lambda>r. \<lparr>b_did = rec_subject r, b_uri = rec_uri r\<rparr>) raw)"
  unfolding assms by (rule filter_cong) auto

lemma blocksToDelete_app_stale:
  assumes all: "allBlockRecords_app listRecords = Some (Inr R)"
      and act: "activeBlocks_app getBlocks = Some (Inr A, reqs)"
  shows "blocksToDelete_app getBlocks listRecords listRecords
           = Some (Inr (filter (\<lambda>record. b_did record \<notin> set (map bp_did A)) R))"
proof -
  let ?f1 = "\<lambda>c. case listRecords ''app.bsky.graph.block'' 100 c of
                    Ok p \<Rightarrow> Got p | NotOk e \<Rightarrow> Stop | Rejected \<Rightarrow> Raise RpcRejected"
  let ?f2 = "\<lambda>c. case listRecords ''app.bsky.graph.block'' 100 c of
                    Ok p \<Rightarrow> Got p | NotOk e \<Rightarrow> Stop | Rejected \<Rightarrow> Stop"
  let ?S = "set (map bp_did A)"
  have got: "?f2 c = Got p" if "?f1 c = Got p" for c p
    using that by (cases "listRecords ''app.bsky.graph.block'' 100 c") simp_all
  have stop: "?f2 c = Stop" if "?f1 c = Stop" for c
    using that by (cases "listRecords ''app.bsky.graph.block'' 100 c") simp_all
  have run: "list_pages ?f1 push_block None [] = Some (Inr R)"
    using all unfolding allBlockRecords_app_def .
  from list_pages_same_pages [of ?f1 ?f2, OF got stop run]
  obtain raw where
    R: "R = map (\<lambda>r. \<lparr>b_did = rec_subject r, b_uri = rec_uri r\<rparr>) raw"
    and second: "\<And>s. list_pages ?f2 scan_step None s = Some (Inr (foldl scan_step s raw))"
    by auto
  have fb: "fetchBlocks_app getBlocks listRecords = Some (Inr (snd (foldl scan_step (?S, []) raw)))"
    unfolding fetchBlocks_app_def act second by (simp split: prod.splits)
  have dids: "set (map b_did (snd (foldl scan_step (?S, []) raw))) = ?S \<inter> set (map rec_subject raw)"
    using foldl_scan_step [of ?S "[]" raw] by simp
  have "blocksToDelete_app getBlocks listRecords listRecords
          = Some (Inr (filter (\<lambda>record. b_did record \<notin> set (map b_did (snd (foldl scan_step (?S, []) raw)))) R))"
    unfolding blocksToDelete_app_def all fb by (simp add: Let_def)
  also have "filter (\<lambda>record. b_did record \<notin> set (map b_did (snd (foldl scan_step (?S, []) raw)))) R
               = filter (\<lambda>record. b_did record \<notin> ?S) R"
    unfolding R by (rule stale_filter [OF dids])
  finally show ?thesis .
qed

lemma blocksToDelete_p0_stale:
  assumes all: "allBlockRecords_p0 listRecords = Some (Inr R)"
      and act: "activeBlocks_p0 getBlocks = Some (Inr A, reqs)"
  shows "blocksToDelete_p0 getBlocks listRecords listRecords
           = Some (Inr (filter (\<lambda>record. b_did record \<notin> set (map bp_did A)) R))"
proof -
  let ?f1 = "\<lambda>c. case listRecords ''app.bsky.graph.block'' 100 c of
                    Resolved p \<Rightarrow> Got p | Thrown e \<Rightarrow> Raise (XrpcThrown e)"
  let ?f2 = "\<lambda>c. case listRecords ''app.bsky.graph.block'' 100 c of
                    Resolved p \<Rightarrow> Got p | Thrown e \<Rightarrow> Stop"
  let ?S = "set (map bp_did A)"
  have got: "?f2 c = Got p" if "?f1 c = Got p" for c p
    using that by (cases "listRecords ''app.bsky.graph.block'' 100 c") simp_all
  have stop: "?f2 c = Stop" if "?f1 c = Stop" for c
    using that by (cases "listRecords ''app.bsky.graph.block'' 100 c") simp_all
  have run: "list_pages ?f1 push_block None [] = Some (Inr R)"
    using all unfolding allBlockRecords_p0_def .
  from list_pages_same_pages [of ?f1 ?f2, OF got stop run]
  obtain raw where
    R: "R = map (\<lambda>r. \<lparr>b_did = rec_subject r, b_uri = rec_uri r\<rparr>) raw"
    and second: "\<And>s. list_pages ?f2 scan_step None s = Some (Inr (foldl scan_step s raw))"
    by auto
  have fb: "fetchBlocks_p0 getBlocks listRecords = Some (Inr (snd (foldl scan_step (?S, []) raw)))"
    unfolding fetchBlocks_p0_def act second by (simp split: prod.splits)
  have dids: "set (map b_did (snd (foldl scan_step (?S, []) raw))) = ?S \<inter> set (map rec_subject raw)"
    using foldl_scan_step [of ?S "[]" raw] by simp
  have "blocksToDelete_p0 getBlocks listRecords listRecords
          = Some (Inr (filter (\<lambda>record. b_did record \<notin> set (map b_did (snd (foldl scan_step (?S, []) raw)))) R))"
    unfolding blocksToDelete_p0_def all fb by (simp add: Let_def)
  also have "filter (\<lambda>record. b_did record \<notin> set (map b_did (snd (foldl scan_step (?S, []) raw)))) R
               = filter (\<lambda>record. b_did record \<notin> ?S) R"
    unfolding R by (rule stale_filter [OF dids])
  finally show ?thesis .
qed

lemma list_pages_paged:
  assumes P: "0 < P"
      and c: "(case c of None \<Rightarrow> 0 | Some s \<Rightarrow> length s) = off"
  shows "list_pages (\<lambda>c. Got (paged_server xs P c)) step c s
           = Some (Inr (foldl step s (drop off xs)))"
  using c
proof (induction "length xs - off" arbitrary: off c s rule: less_induct)
  case less
  have page: "paged_server xs P c
                = \<lparr>items = take P (drop off xs),
                   cursor = (if off + P < length xs then Some (replicate (off + P) (CHR ''c''))
                             else None)\<rparr>"
    using less.prems by (simp add: paged_server_def)
  show ?case
  proof (cases "off + P < length xs")
    case False
    then have all: "take P (drop off xs) = drop off xs"
      by simp
    have "list_pages (\<lambda>c. Got (paged_server xs P c)) step c s
            = Some (Inr (foldl step s (take P (drop off xs))))"
      using False by (subst list_pages.simps) (simp add: page)
    then show ?thesis
      unfolding all .
  next
    case True
    let ?c = "Some (replicate (off + P) (CHR ''c''))"
    have step: "list_pages (\<lambda>c. Got (paged_server xs P c)) step c s
                  = list_pages (\<lambda>c. Got (paged_server xs P c)) step ?c
                      (foldl step s (take P (drop off xs)))"
      using True P by (subst list_pages.simps) (simp add: page)
    have smaller: "length xs - (off + P) < length xs - off"
      using True P by simp
    have c': "(case ?c of None \<Rightarrow> 0 | Some s \<Rightarrow> length s) = off + P"
      by simp
    have rest: "list_pages (\<lambda>c. Got (paged_server xs P c)) step ?c
                  (foldl step s (take P (drop off xs)))
                = Some (Inr (foldl step (foldl step s (take P (drop off xs))) (drop (off + P) xs)))"
      by (rule less.hyps [OF smaller c'])
    have "foldl step (foldl step s (take P (drop off xs))) (drop (off + P) xs)
            = foldl step s (take P (drop off xs) @ drop (off + P) xs)"
      by simp
    also have "\<dots> = foldl step s (drop off xs)"
      unfolding take_drop_next ..
    finally show ?thesis
      unfolding step rest by simp
  qed
qed

lemma allBlockRecords_app_paged:
  "allBlockRecords_app (\<lambda>coll lim c. Ok (paged_server (repo coll) lim c))
     = Some (Inr (map (\<lambda>r. \<lparr>b_did = rec_subject r, b_uri = rec_uri r\<rparr>)
                    (repo ''app.bsky.graph.block'')))"
proof -
  have hundred: "(0 :: nat) < 100"
    by simp
  have none: "(case None :: string option of None \<Rightarrow> 0 | Some s \<Rightarrow> length s) = (0 :: nat)"
    by simp
  show ?thesis
    unfolding allBlockRecords_app_def client_result.case
    by (simp add: list_pages_paged [OF hundred none] foldl_push_block)
qed

lemma allBlockRecords_p0_paged:
  "allBlockRecords_p0 (\<lambda>coll lim c. Resolved (paged_server (repo coll) lim c))
     = Some (Inr (map (\<lambda>r. \<lparr>b_did = rec_subject r, b_uri = rec_uri r\<rparr>)
                    (repo ''app.bsky.graph.block'')))"
proof -
  have hundred: "(0 :: nat) < 100"
    by simp
  have none: "(case None :: string option of None \<Rightarrow> 0 | Some s \<Rightarrow> length s) = (0 :: nat)"
    by simp
  show ?thesis
    unfolding allBlockRecords_p0_def xrpc_result.case
    by (simp add: list_pages_paged [OF hundred none] foldl_push_block)
qed

lemma activeBlocks_app_paged:
  "\<exists>reqs. activeBlocks_app (\<lambda>lim c. Ok (paged_server active lim c)) = Some (Inr active, reqs)"
proof -
  have fifty: "(0 :: nat) < 50"
    by simp
  from getBlocks_all_paged [OF fifty, of active] show ?thesis
    unfolding activeBlocks_app_def page_or_throw_app_def client_result.case by blast
qed

lemma activeBlocks_p0_paged:
  "\<exists>reqs. activeBlocks_p0 (\<lambda>lim c. Resolved (paged_server active lim c)) = Some (Inr active, reqs)"
proof -
  have fifty: "(0 :: nat) < 50"
    by simp
  from getBlocks_all_paged [OF fifty, of active] show ?thesis
    unfolding activeBlocks_p0_def page_or_throw_p0_def xrpc_result.case by blast
qed

text \<open>
  C1 as stated, for every run: the records handed to classification are the repository's
  block records whose subject is absent from the active block list. A run in which the
  second listing of the repository, the one inside \<^verbatim>\<open>fetchBlocks\<close>, is refused: the
  repository holds a block of \<open>did:plc:a\<close> and a block of \<open>did:plc:b\<close>, the active block
  list holds \<open>did:plc:b\<close>, the first listing and the active blocks are served. The failure
  ends the second listing with no record matched, so no identifier counts as active and
  both records are handed to classification, the active block of \<open>did:plc:b\<close> included.
\<close>

theorem C1_counterexample:
  "blocksToDelete_app
     (\<lambda>lim c. Ok (paged_server [\<lparr>bp_did = ''did:plc:b'', bp_handle = ''b.test''\<rparr>] lim c))
     (\<lambda>coll lim c. Ok (paged_server
        [\<lparr>rec_uri = ''at://did:plc:me/app.bsky.graph.block/1'', rec_subject = ''did:plc:a''\<rparr>,
         \<lparr>rec_uri = ''at://did:plc:me/app.bsky.graph.block/2'', rec_subject = ''did:plc:b''\<rparr>] lim c))
     (\<lambda>coll lim c. NotOk \<lparr>eb_error = Some ''UpstreamFailure'', eb_message = None\<rparr>)
   = Some (Inr [\<lparr>b_did = ''did:plc:a'', b_uri = ''at://did:plc:me/app.bsky.graph.block/1''\<rparr>,
                \<lparr>b_did = ''did:plc:b'', b_uri = ''at://did:plc:me/app.bsky.graph.block/2''\<rparr>]) \<and>
   blocksToDelete_p0
     (\<lambda>lim c. Resolved (paged_server [\<lparr>bp_did = ''did:plc:b'', bp_handle = ''b.test''\<rparr>] lim c))
     (\<lambda>coll lim c. Resolved (paged_server
        [\<lparr>rec_uri = ''at://did:plc:me/app.bsky.graph.block/1'', rec_subject = ''did:plc:a''\<rparr>,
         \<lparr>rec_uri = ''at://did:plc:me/app.bsky.graph.block/2'', rec_subject = ''did:plc:b''\<rparr>] lim c))
     (\<lambda>coll lim c. Thrown \<lparr>t_message = Some ''fetch failed'', t_status = None, t_data = None\<rparr>)
   = Some (Inr [\<lparr>b_did = ''did:plc:a'', b_uri = ''at://did:plc:me/app.bsky.graph.block/1''\<rparr>,
                \<lparr>b_did = ''did:plc:b'', b_uri = ''at://did:plc:me/app.bsky.graph.block/2''\<rparr>]) \<and>
   [\<lparr>b_did = ''did:plc:a'', b_uri = ''at://did:plc:me/app.bsky.graph.block/1''\<rparr>,
    \<lparr>b_did = ''did:plc:b'', b_uri = ''at://did:plc:me/app.bsky.graph.block/2''\<rparr>]
   \<noteq> filter (\<lambda>record. b_did record \<notin> bp_did ` set [\<lparr>bp_did = ''did:plc:b'', bp_handle = ''b.test''\<rparr>])
       [\<lparr>b_did = ''did:plc:a'', b_uri = ''at://did:plc:me/app.bsky.graph.block/1''\<rparr>,
        \<lparr>b_did = ''did:plc:b'', b_uri = ''at://did:plc:me/app.bsky.graph.block/2''\<rparr>]"
proof -
  let ?A = "[\<lparr>bp_did = ''did:plc:b'', bp_handle = ''b.test''\<rparr>]"
  let ?raw = "[\<lparr>rec_uri = ''at://did:plc:me/app.bsky.graph.block/1'', rec_subject = ''did:plc:a''\<rparr>,
               \<lparr>rec_uri = ''at://did:plc:me/app.bsky.graph.block/2'', rec_subject = ''did:plc:b''\<rparr>]"
  let ?R = "[\<lparr>b_did = ''did:plc:a'', b_uri = ''at://did:plc:me/app.bsky.graph.block/1''\<rparr>,
             \<lparr>b_did = ''did:plc:b'', b_uri = ''at://did:plc:me/app.bsky.graph.block/2''\<rparr>]"
  let ?failC = "\<lambda>(coll :: string) (lim :: nat) (c :: string option).
                  (NotOk \<lparr>eb_error = Some ''UpstreamFailure'', eb_message = None\<rparr>
                     :: RepoRecord page client_result)"
  let ?failX = "\<lambda>(coll :: string) (lim :: nat) (c :: string option).
                  (Thrown \<lparr>t_message = Some ''fetch failed'', t_status = None, t_data = None\<rparr>
                     :: RepoRecord page xrpc_result)"
  have allC: "allBlockRecords_app (\<lambda>coll lim c. Ok (paged_server ?raw lim c)) = Some (Inr ?R)"
    using allBlockRecords_app_paged [of "\<lambda>coll. ?raw"] by simp
  obtain reqsC where actC: "activeBlocks_app (\<lambda>lim c. Ok (paged_server ?A lim c)) = Some (Inr ?A, reqsC)"
    using activeBlocks_app_paged [of ?A] by blast
  have fbC: "fetchBlocks_app (\<lambda>lim c. Ok (paged_server ?A lim c)) ?failC = Some (Inr [])"
    unfolding fetchBlocks_app_def actC
    by (simp, subst list_pages.simps, simp)
  have app: "blocksToDelete_app (\<lambda>lim c. Ok (paged_server ?A lim c))
               (\<lambda>coll lim c. Ok (paged_server ?raw lim c)) ?failC = Some (Inr ?R)"
    unfolding blocksToDelete_app_def allC fbC by simp
  have allX: "allBlockRecords_p0 (\<lambda>coll lim c. Resolved (paged_server ?raw lim c)) = Some (Inr ?R)"
    using allBlockRecords_p0_paged [of "\<lambda>coll. ?raw"] by simp
  obtain reqsX where actX: "activeBlocks_p0 (\<lambda>lim c. Resolved (paged_server ?A lim c)) = Some (Inr ?A, reqsX)"
    using activeBlocks_p0_paged [of ?A] by blast
  have fbX: "fetchBlocks_p0 (\<lambda>lim c. Resolved (paged_server ?A lim c)) ?failX = Some (Inr [])"
    unfolding fetchBlocks_p0_def actX
    by (simp, subst list_pages.simps, simp)
  have p0: "blocksToDelete_p0 (\<lambda>lim c. Resolved (paged_server ?A lim c))
               (\<lambda>coll lim c. Resolved (paged_server ?raw lim c)) ?failX = Some (Inr ?R)"
    unfolding blocksToDelete_p0_def allX fbX by simp
  have differ: "?R \<noteq> filter (\<lambda>record. b_did record \<notin> bp_did ` set ?A) ?R"
    by simp
  from app p0 differ show ?thesis
    by (intro conjI)
qed

text \<open>
  C1, amended: for every run of block mode in which every page request is served, with
  the repository's block records and the live active block list as fixed inputs, the
  records handed to classification are exactly the repository's block records whose
  subject is the identifier of no active block, in the order of the repository. The
  repository holds the records \<open>repo coll\<close> in the collection \<open>coll\<close>, the active block
  list is \<open>active\<close>, and both are served in pages to the two listings of the repository
  and to the fetch of the active blocks. The run returns. A record is kept or dropped by
  its subject alone, so records that share a subject share the verdict, and as a set the
  result depends only on the set of records and the set of active identifiers. This holds
  for both versions.
\<close>

theorem C1_stale_blocks:
  fixes repo :: "string \<Rightarrow> RepoRecord list" and active :: "BlockedProfile list"
  defines "R \<equiv> map (\<lambda>r. \<lparr>b_did = rec_subject r, b_uri = rec_uri r\<rparr>) (repo ''app.bsky.graph.block'')"
  defines "stale \<equiv> filter (\<lambda>record. b_did record \<notin> bp_did ` set active) R"
  shows "blocksToDelete_app (\<lambda>lim c. Ok (paged_server active lim c))
           (\<lambda>coll lim c. Ok (paged_server (repo coll) lim c))
           (\<lambda>coll lim c. Ok (paged_server (repo coll) lim c)) = Some (Inr stale) \<and>
         blocksToDelete_p0 (\<lambda>lim c. Resolved (paged_server active lim c))
           (\<lambda>coll lim c. Resolved (paged_server (repo coll) lim c))
           (\<lambda>coll lim c. Resolved (paged_server (repo coll) lim c)) = Some (Inr stale) \<and>
         set stale = {record \<in> set R. b_did record \<notin> bp_did ` set active} \<and>
         (\<forall>x \<in> set R. \<forall>y \<in> set R. b_did x = b_did y \<longrightarrow> (x \<in> set stale \<longleftrightarrow> y \<in> set stale))"
proof (intro conjI ballI impI)
  obtain reqsC where actC:
    "activeBlocks_app (\<lambda>lim c. Ok (paged_server active lim c)) = Some (Inr active, reqsC)"
    using activeBlocks_app_paged [of active] by blast
  have allC: "allBlockRecords_app (\<lambda>coll lim c. Ok (paged_server (repo coll) lim c)) = Some (Inr R)"
    unfolding R_def by (rule allBlockRecords_app_paged)
  show "blocksToDelete_app (\<lambda>lim c. Ok (paged_server active lim c))
           (\<lambda>coll lim c. Ok (paged_server (repo coll) lim c))
           (\<lambda>coll lim c. Ok (paged_server (repo coll) lim c)) = Some (Inr stale)"
    unfolding stale_def using blocksToDelete_app_stale [OF allC actC] by simp
next
  obtain reqsX where actX:
    "activeBlocks_p0 (\<lambda>lim c. Resolved (paged_server active lim c)) = Some (Inr active, reqsX)"
    using activeBlocks_p0_paged [of active] by blast
  have allX: "allBlockRecords_p0 (\<lambda>coll lim c. Resolved (paged_server (repo coll) lim c)) = Some (Inr R)"
    unfolding R_def by (rule allBlockRecords_p0_paged)
  show "blocksToDelete_p0 (\<lambda>lim c. Resolved (paged_server active lim c))
           (\<lambda>coll lim c. Resolved (paged_server (repo coll) lim c))
           (\<lambda>coll lim c. Resolved (paged_server (repo coll) lim c)) = Some (Inr stale)"
    unfolding stale_def using blocksToDelete_p0_stale [OF allX actX] by simp
next
  show "set stale = {record \<in> set R. b_did record \<notin> bp_did ` set active}"
    unfolding stale_def by auto
next
  fix x y
  assume "x \<in> set R" and "y \<in> set R" and "b_did x = b_did y"
  then show "x \<in> set stale \<longleftrightarrow> y \<in> set stale"
    unfolding stale_def by simp
qed

theorem C1_stale_blocks_witness:
  "blocksToDelete_app
     (\<lambda>lim c. Ok (paged_server [\<lparr>bp_did = ''did:plc:b'', bp_handle = ''b.test''\<rparr>] lim c))
     (\<lambda>coll lim c. Ok (paged_server (if coll = ''app.bsky.graph.block'' then
        [\<lparr>rec_uri = ''at://did:plc:me/app.bsky.graph.block/1'', rec_subject = ''did:plc:a''\<rparr>,
         \<lparr>rec_uri = ''at://did:plc:me/app.bsky.graph.block/2'', rec_subject = ''did:plc:b''\<rparr>,
         \<lparr>rec_uri = ''at://did:plc:me/app.bsky.graph.block/3'', rec_subject = ''did:plc:c''\<rparr>,
         \<lparr>rec_uri = ''at://did:plc:me/app.bsky.graph.block/4'', rec_subject = ''did:plc:a''\<rparr>]
        else []) lim c))
     (\<lambda>coll lim c. Ok (paged_server (if coll = ''app.bsky.graph.block'' then
        [\<lparr>rec_uri = ''at://did:plc:me/app.bsky.graph.block/1'', rec_subject = ''did:plc:a''\<rparr>,
         \<lparr>rec_uri = ''at://did:plc:me/app.bsky.graph.block/2'', rec_subject = ''did:plc:b''\<rparr>,
         \<lparr>rec_uri = ''at://did:plc:me/app.bsky.graph.block/3'', rec_subject = ''did:plc:c''\<rparr>,
         \<lparr>rec_uri = ''at://did:plc:me/app.bsky.graph.block/4'', rec_subject = ''did:plc:a''\<rparr>]
        else []) lim c))
   = Some (Inr [\<lparr>b_did = ''did:plc:a'', b_uri = ''at://did:plc:me/app.bsky.graph.block/1''\<rparr>,
                \<lparr>b_did = ''did:plc:c'', b_uri = ''at://did:plc:me/app.bsky.graph.block/3''\<rparr>,
                \<lparr>b_did = ''did:plc:a'', b_uri = ''at://did:plc:me/app.bsky.graph.block/4''\<rparr>]) \<and>
   blocksToDelete_p0
     (\<lambda>lim c. Resolved (paged_server [\<lparr>bp_did = ''did:plc:b'', bp_handle = ''b.test''\<rparr>] lim c))
     (\<lambda>coll lim c. Resolved (paged_server (if coll = ''app.bsky.graph.block'' then
        [\<lparr>rec_uri = ''at://did:plc:me/app.bsky.graph.block/1'', rec_subject = ''did:plc:a''\<rparr>,
         \<lparr>rec_uri = ''at://did:plc:me/app.bsky.graph.block/2'', rec_subject = ''did:plc:b''\<rparr>,
         \<lparr>rec_uri = ''at://did:plc:me/app.bsky.graph.block/3'', rec_subject = ''did:plc:c''\<rparr>,
         \<lparr>rec_uri = ''at://did:plc:me/app.bsky.graph.block/4'', rec_subject = ''did:plc:a''\<rparr>]
        else []) lim c))
     (\<lambda>coll lim c. Resolved (paged_server (if coll = ''app.bsky.graph.block'' then
        [\<lparr>rec_uri = ''at://did:plc:me/app.bsky.graph.block/1'', rec_subject = ''did:plc:a''\<rparr>,
         \<lparr>rec_uri = ''at://did:plc:me/app.bsky.graph.block/2'', rec_subject = ''did:plc:b''\<rparr>,
         \<lparr>rec_uri = ''at://did:plc:me/app.bsky.graph.block/3'', rec_subject = ''did:plc:c''\<rparr>,
         \<lparr>rec_uri = ''at://did:plc:me/app.bsky.graph.block/4'', rec_subject = ''did:plc:a''\<rparr>]
        else []) lim c))
   = Some (Inr [\<lparr>b_did = ''did:plc:a'', b_uri = ''at://did:plc:me/app.bsky.graph.block/1''\<rparr>,
                \<lparr>b_did = ''did:plc:c'', b_uri = ''at://did:plc:me/app.bsky.graph.block/3''\<rparr>,
                \<lparr>b_did = ''did:plc:a'', b_uri = ''at://did:plc:me/app.bsky.graph.block/4''\<rparr>])"
proof -
  let ?A = "[\<lparr>bp_did = ''did:plc:b'', bp_handle = ''b.test''\<rparr>]"
  let ?repo = "\<lambda>coll. if coll = ''app.bsky.graph.block'' then
        [\<lparr>rec_uri = ''at://did:plc:me/app.bsky.graph.block/1'', rec_subject = ''did:plc:a''\<rparr>,
         \<lparr>rec_uri = ''at://did:plc:me/app.bsky.graph.block/2'', rec_subject = ''did:plc:b''\<rparr>,
         \<lparr>rec_uri = ''at://did:plc:me/app.bsky.graph.block/3'', rec_subject = ''did:plc:c''\<rparr>,
         \<lparr>rec_uri = ''at://did:plc:me/app.bsky.graph.block/4'', rec_subject = ''did:plc:a''\<rparr>]
        else []"
  note run = C1_stale_blocks [of ?A ?repo]
  from run [THEN conjunct1] have a:
    "blocksToDelete_app (\<lambda>lim c. Ok (paged_server ?A lim c))
       (\<lambda>coll lim c. Ok (paged_server (?repo coll) lim c))
       (\<lambda>coll lim c. Ok (paged_server (?repo coll) lim c))
     = Some (Inr [\<lparr>b_did = ''did:plc:a'', b_uri = ''at://did:plc:me/app.bsky.graph.block/1''\<rparr>,
                  \<lparr>b_did = ''did:plc:c'', b_uri = ''at://did:plc:me/app.bsky.graph.block/3''\<rparr>,
                  \<lparr>b_did = ''did:plc:a'', b_uri = ''at://did:plc:me/app.bsky.graph.block/4''\<rparr>])"
    by simp
  from run [THEN conjunct2, THEN conjunct1] have b:
    "blocksToDelete_p0 (\<lambda>lim c. Resolved (paged_server ?A lim c))
       (\<lambda>coll lim c. Resolved (paged_server (?repo coll) lim c))
       (\<lambda>coll lim c. Resolved (paged_server (?repo coll) lim c))
     = Some (Inr [\<lparr>b_did = ''did:plc:a'', b_uri = ''at://did:plc:me/app.bsky.graph.block/1''\<rparr>,
                  \<lparr>b_did = ''did:plc:c'', b_uri = ''at://did:plc:me/app.bsky.graph.block/3''\<rparr>,
                  \<lparr>b_did = ''did:plc:a'', b_uri = ''at://did:plc:me/app.bsky.graph.block/4''\<rparr>])"
    by simp
  from a b show ?thesis
    by (rule conjI)
qed

section \<open>C2: the output of follow mode\<close>










section \<open>C5 and C10: the status stored on a block-mode record\<close>

lemma classify_blocks_all_or_nothing:
  "classify_blocks mk check blocks tmp = Inr out \<Longrightarrow>
   \<exists>results. length results = length blocks \<and>
             (\<forall>i < length blocks. check (b_did (blocks ! i)) = Inr (results ! i)) \<and>
             out = tmp @ map (\<lambda>(block, res). mk block res) (zip blocks results)"
proof (induction blocks arbitrary: tmp)
  case Nil
  then show ?case by simp
next
  case (Cons block rest)
  from Cons.prems obtain res where res: "check (b_did block) = Inr res"
    and rest: "classify_blocks mk check rest (tmp @ [mk block res]) = Inr out"
    by (auto split: sum.splits)
  from Cons.IH [OF rest] obtain results where
    len: "length results = length rest"
    and chk: "\<forall>i < length rest. check (b_did (rest ! i)) = Inr (results ! i)"
    and out: "out = (tmp @ [mk block res]) @ map (\<lambda>(block, res). mk block res) (zip rest results)"
    by blast
  have chk': "check (b_did ((block # rest) ! i)) = Inr ((res # results) ! i)"
    if "i < length (block # rest)" for i
    using that res chk by (cases i) simp_all
  show ?case
  proof (intro exI [where x = "res # results"] conjI allI impI)
    show "length (res # results) = length (block # rest)" using len by simp
    show "out = tmp @ map (\<lambda>(block, res). mk block res) (zip (block # rest) (res # results))"
      using out by simp
    fix i assume "i < length (block # rest)"
    then show "check (b_did ((block # rest) ! i)) = Inr ((res # results) ! i)" by (rule chk')
  qed
qed

lemma mkBlockRecord_p0_status:
  "status (mkBlockRecord_p0 toggles block res) \<in> {DELETED, DEACTIVATED, SUSPENDED, UNKNOWN}"
  by (simp add: mkBlockRecord_p0_def)

lemma mkBlockRecord_label_agree:
  "status_label (mkBlockRecord_app toggles block res) = status_label (mkBlockRecord_p0 toggles block res)"
  by (simp add: mkBlockRecord_app_def mkBlockRecord_p0_def block_status_label_def Let_def)

lemma mkBlockRecord_agree:
  "r_status res \<in> {None, Some 0, Some DELETED, Some DEACTIVATED, Some SUSPENDED, Some UNKNOWN} \<Longrightarrow>
   mkBlockRecord_app toggles block res = mkBlockRecord_p0 toggles block res"
  by (auto simp add: mkBlockRecord_app_def mkBlockRecord_p0_def block_status_label_def Let_def
      status_values)

text \<open>
  C5: every stale record is kept, and its stored status is one of DELETED, DEACTIVATED,
  SUSPENDED and UNKNOWN. The loop keeps every record in both versions when every
  classification returns (\<open>classify_blocks_all_or_nothing\<close>), and the second version
  stores one of the four statuses (\<open>mkBlockRecord_p0_status\<close>). The loop body of
  \<^verbatim>\<open>src/App.tsx\<close> stores \<^verbatim>\<open>status || RepoStatus.UNKNOWN\<close>. A run of block mode
  with one block record in the repository, no active block, and a profile that is still
  served and shows the viewer as blocked by the subject: \<^verbatim>\<open>src/App.tsx\<close> stores the
  record with status BLOCKEDBY under the label "Unknown", the other version stores it
  with status UNKNOWN.
\<close>

theorem C5_block_status_app:
  "fetchHiddenAccounts_blocks_app
     (checkProfileStatus_app ''did:plc:me''
        (\<lambda>a. Ok \<lparr>pv_did = Some ''did:plc:them'', pv_handle = Some ''them.test'', labels = Some [],
                   viewer = Some \<lparr>blockedBy = Some True, blocking = None, blockingByList = None\<rparr>\<rparr>)
        (\<lambda>u. FetchFailed))
     (\<lambda>lim c. Ok \<lparr>items = [], cursor = None\<rparr>)
     (\<lambda>coll lim c. Ok \<lparr>items = [\<lparr>rec_uri = ''at://did:plc:me/app.bsky.graph.block/3k'',
                                       rec_subject = ''did:plc:them''\<rparr>],
                          cursor = None\<rparr>)
     (\<lambda>coll lim c. Ok \<lparr>items = [\<lparr>rec_uri = ''at://did:plc:me/app.bsky.graph.block/3k'',
                                       rec_subject = ''did:plc:them''\<rparr>],
                          cursor = None\<rparr>)
     \<lparr>followRecords = [], blockRecords = [], followToggleStates = followToggleStates0,
      blockToggleStates = blockToggleStates0, currentMode = BLOCKS, globalNotice = NoNotice,
      progress = 0, itemCount = 0\<rparr>
   = Some (Inr
      \<lparr>followRecords = [],
       blockRecords = [\<lparr>did = ''did:plc:them'', handle = ''them.test'',
                        uri = ''at://did:plc:me/app.bsky.graph.block/3k'',
                        status = BLOCKEDBY, status_label = ''Unknown'', toDelete = False,
                        visible = True\<rparr>],
       followToggleStates = followToggleStates0, blockToggleStates = blockToggleStates0,
       currentMode = BLOCKS, globalNotice = NoNotice, progress = 0, itemCount = 0\<rparr>) \<and>
   BLOCKEDBY \<notin> {DELETED, DEACTIVATED, SUSPENDED, UNKNOWN} \<and>
   fetchHiddenAccounts_blocks_p0
     (checkProfileStatus_p0 ''did:plc:me''
        (\<lambda>a. Resolved (Some \<lparr>pv_did = Some ''did:plc:them'', pv_handle = Some ''them.test'',
                   labels = Some [],
                   viewer = Some \<lparr>blockedBy = Some True, blocking = None, blockingByList = None\<rparr>\<rparr>))
        (\<lambda>u. FetchFailed))
     (\<lambda>lim c. Resolved \<lparr>items = [], cursor = None\<rparr>)
     (\<lambda>coll lim c. Resolved \<lparr>items = [\<lparr>rec_uri = ''at://did:plc:me/app.bsky.graph.block/3k'',
                                             rec_subject = ''did:plc:them''\<rparr>],
                                cursor = None\<rparr>)
     (\<lambda>coll lim c. Resolved \<lparr>items = [\<lparr>rec_uri = ''at://did:plc:me/app.bsky.graph.block/3k'',
                                             rec_subject = ''did:plc:them''\<rparr>],
                                cursor = None\<rparr>)
     \<lparr>followRecords = [], blockRecords = [], followToggleStates = followToggleStates0,
      blockToggleStates = blockToggleStates0, currentMode = BLOCKS, globalNotice = NoNotice,
      progress = 0, itemCount = 0\<rparr>
   = Some (Inr
      \<lparr>followRecords = [],
       blockRecords = [\<lparr>did = ''did:plc:them'', handle = ''them.test'',
                        uri = ''at://did:plc:me/app.bsky.graph.block/3k'',
                        status = UNKNOWN, status_label = ''Unknown'', toDelete = False,
                        visible = True\<rparr>],
       followToggleStates = followToggleStates0, blockToggleStates = blockToggleStates0,
       currentMode = BLOCKS, globalNotice = NoNotice, progress = 0, itemCount = 0\<rparr>)"
proof -
  let ?ref = "\<lparr>b_did = ''did:plc:them'', b_uri = ''at://did:plc:me/app.bsky.graph.block/3k''\<rparr>"
  let ?rec = "\<lparr>rec_uri = ''at://did:plc:me/app.bsky.graph.block/3k'', rec_subject = ''did:plc:them''\<rparr>"
  let ?p = "\<lparr>pv_did = Some ''did:plc:them'', pv_handle = Some ''them.test'', labels = Some [],
             viewer = Some \<lparr>blockedBy = Some True, blocking = None, blockingByList = None\<rparr>\<rparr>"
  let ?st = "\<lparr>followRecords = [], blockRecords = [], followToggleStates = followToggleStates0,
      blockToggleStates = blockToggleStates0, currentMode = BLOCKS, globalNotice = NoNotice,
      progress = 0, itemCount = 0\<rparr>"
  let ?getC = "\<lambda>(lim :: nat) (c :: string option). Ok \<lparr>items = ([] :: BlockedProfile list), cursor = None\<rparr>"
  let ?listC = "\<lambda>(coll :: string) (lim :: nat) (c :: string option). Ok \<lparr>items = [?rec], cursor = None\<rparr>"
  let ?getX = "\<lambda>(lim :: nat) (c :: string option). Resolved \<lparr>items = ([] :: BlockedProfile list), cursor = None\<rparr>"
  let ?listX = "\<lambda>(coll :: string) (lim :: nat) (c :: string option). Resolved \<lparr>items = [?rec], cursor = None\<rparr>"
  have allC: "allBlockRecords_app ?listC = Some (Inr [?ref])"
    unfolding allBlockRecords_app_def
    by (subst list_pages.simps) (simp add: push_block_def)
  have actC: "activeBlocks_app ?getC = Some (Inr [], [None])"
    unfolding activeBlocks_app_def getBlocks_all_def
    by (simp add: page_or_throw_app_def, subst blocks_loop.simps, simp)
  have staleC: "blocksToDelete_app ?getC ?listC ?listC = Some (Inr [?ref])"
    using blocksToDelete_app_stale [OF allC actC] by simp
  have clsC: "classify_blocks (mkBlockRecord_app blockToggleStates0)
                (checkProfileStatus_app ''did:plc:me'' (\<lambda>a. Ok ?p) (\<lambda>u. FetchFailed)) [?ref] []
              = Inr [\<lparr>did = ''did:plc:them'', handle = ''them.test'',
                      uri = ''at://did:plc:me/app.bsky.graph.block/3k'',
                      status = BLOCKEDBY, status_label = ''Unknown'', toDelete = False,
                      visible = True\<rparr>]"
    by (simp add: checkProfileStatus_app_def has_hide_label_def viewer_blocks_def
        mkBlockRecord_app_def block_status_label_def or_else_def toggle_or_true_def
        blockToggleStates0_def status_values)
  have app: "fetchHiddenAccounts_blocks_app
               (checkProfileStatus_app ''did:plc:me'' (\<lambda>a. Ok ?p) (\<lambda>u. FetchFailed)) ?getC ?listC ?listC ?st
             = Some (Inr (?st\<lparr>blockRecords :=
                  [\<lparr>did = ''did:plc:them'', handle = ''them.test'',
                    uri = ''at://did:plc:me/app.bsky.graph.block/3k'',
                    status = BLOCKEDBY, status_label = ''Unknown'', toDelete = False,
                    visible = True\<rparr>]\<rparr>))"
    unfolding fetchHiddenAccounts_blocks_app_def staleC
    using clsC by (simp add: store_blocks_def)
  have allX: "allBlockRecords_p0 ?listX = Some (Inr [?ref])"
    unfolding allBlockRecords_p0_def
    by (subst list_pages.simps) (simp add: push_block_def)
  have actX: "activeBlocks_p0 ?getX = Some (Inr [], [None])"
    unfolding activeBlocks_p0_def getBlocks_all_def
    by (simp add: page_or_throw_p0_def, subst blocks_loop.simps, simp)
  have staleX: "blocksToDelete_p0 ?getX ?listX ?listX = Some (Inr [?ref])"
    using blocksToDelete_p0_stale [OF allX actX] by simp
  have clsX: "classify_blocks (mkBlockRecord_p0 blockToggleStates0)
                (checkProfileStatus_p0 ''did:plc:me'' (\<lambda>a. Resolved (Some ?p)) (\<lambda>u. FetchFailed)) [?ref] []
              = Inr [\<lparr>did = ''did:plc:them'', handle = ''them.test'',
                      uri = ''at://did:plc:me/app.bsky.graph.block/3k'',
                      status = UNKNOWN, status_label = ''Unknown'', toDelete = False,
                      visible = True\<rparr>]"
    by (simp add: checkProfileStatus_p0_def has_hide_label_def viewer_blocks_def
        mkBlockRecord_p0_def or_else_def toggle_or_true_def
        blockToggleStates0_def status_values)
  have p0: "fetchHiddenAccounts_blocks_p0
               (checkProfileStatus_p0 ''did:plc:me'' (\<lambda>a. Resolved (Some ?p)) (\<lambda>u. FetchFailed))
               ?getX ?listX ?listX ?st
             = Some (Inr (?st\<lparr>blockRecords :=
                  [\<lparr>did = ''did:plc:them'', handle = ''them.test'',
                    uri = ''at://did:plc:me/app.bsky.graph.block/3k'',
                    status = UNKNOWN, status_label = ''Unknown'', toDelete = False,
                    visible = True\<rparr>]\<rparr>))"
    unfolding fetchHiddenAccounts_blocks_p0_def staleX
    using clsX by (simp add: store_blocks_def)
  have other: "BLOCKEDBY \<notin> {DELETED, DEACTIVATED, SUSPENDED, UNKNOWN}"
    by (simp add: status_values)
  from app p0 other show ?thesis by simp
qed

text \<open>
  C10: both versions store the same status and the same label for every classifier
  result. The labels agree (\<open>mkBlockRecord_label_agree\<close>), and so do the records when the
  classifier returns no status or one of DELETED, DEACTIVATED, SUSPENDED and UNKNOWN
  (\<open>mkBlockRecord_agree\<close>). For any other status they differ: for BLOCKEDBY,
  \<^verbatim>\<open>src/App.tsx\<close> stores BLOCKEDBY and the other version stores UNKNOWN.
\<close>

theorem C10_versions_differ:
  "status (mkBlockRecord_app blockToggleStates0
             \<lparr>b_did = ''did:plc:them'', b_uri = ''at://did:plc:me/app.bsky.graph.block/3k''\<rparr>
             \<lparr>r_handle = Some ''them.test'', r_status = Some BLOCKEDBY, r_error = None\<rparr>) = BLOCKEDBY \<and>
   status (mkBlockRecord_p0 blockToggleStates0
             \<lparr>b_did = ''did:plc:them'', b_uri = ''at://did:plc:me/app.bsky.graph.block/3k''\<rparr>
             \<lparr>r_handle = Some ''them.test'', r_status = Some BLOCKEDBY, r_error = None\<rparr>) = UNKNOWN \<and>
   BLOCKEDBY \<noteq> UNKNOWN"
  by (simp add: mkBlockRecord_app_def mkBlockRecord_p0_def status_values)

section \<open>Follow mode on a concrete remote state\<close>


end
